theory Spec2Isabelle
  imports Main "HOL-Library.Word"
begin

section \<open>The resumable, hash-checked batch downloader of utils.py\<close>

text \<open>
  A shallow embedding of \<^verbatim>\<open>print_if\<close>, \<^verbatim>\<open>warn_if\<close>, \<^verbatim>\<open>safe_get_request\<close> and the class
  \<^verbatim>\<open>SafeDownloader\<close> of \<^verbatim>\<open>src/utils.py\<close>.

  The Python works on a file system, a network and a console. Here they are explicit:
  \<^item> the \<open>world\<close> holds the files of the output directory and the trace of everything the
    program did that can be observed from outside (lines printed, warnings, HTTP
    requests sent, files opened), in the order it happened;
  \<^item> the network is a function \<open>net\<close>: the \<open>n\<close>-th request the program sends is answered
    by \<open>net n request\<close>, either with an exception or with a response, so the same URL may
    be answered differently each time;
  \<^item> every function returns the world it leaves together with either the exception it
    raised or its return value, so the files written before an exception are still
    there afterwards.

  What is taken from outside the file:
  \<^item> the thresholds \<^verbatim>\<open>VERBOSE[...]\<close> of the module \<^verbatim>\<open>definitions\<close> are the parameter \<open>D\<close>;
    its message templates are the constructors of \<open>message\<close>, each applied to the
    argument of \<^verbatim>\<open>.format\<close>;
  \<^item> \<^verbatim>\<open>hashlib.sha256\<close> is the parameter \<open>H\<close>: an initial state, \<^verbatim>\<open>update\<close> and
    \<^verbatim>\<open>hexdigest\<close>;
  \<^item> a response body is the finite list of chunks \<^verbatim>\<open>iter_content\<close> yields, with the
    exception that ends it early, if any;
  \<^item> every path lies in a directory in which files can be created, so opening for
    writing succeeds, and opening for reading fails exactly when the file is absent;
  \<^item> the \<^verbatim>\<open>tqdm\<close> progress bar only draws on the console and is left out.
\<close>

subsection \<open>Data\<close>

type_synonym byte = "8 word"
type_synonym bytes = "byte list"

datatype exn =
    ConnectionError string
  | OtherException string
  | ValueError
  | IndexError
  | TypeError
  | FileNotFoundError

text \<open>The path object \<^verbatim>\<open>self.outfile / self.file_names[position]\<close>.\<close>

datatype path = Path string string

text \<open>\<^verbatim>\<open>file.name\<close>: the last component of the path.\<close>

fun path_name :: "path \<Rightarrow> string" where
  "path_name (Path d n) = rev (takeWhile (\<lambda>c. c \<noteq> CHR ''/'') (rev n))"

datatype message =
    DOWNLOAD_INCOMPLETE_WRN path
  | DOWNLOAD_COMPLETE_MSG path
  | DOWNLOAD_START_MSG path
  | DOWNLOAD_NO_HASH_ERR string
  | DOWNLOAD_CORRUPTION_ERR string
  | DOWNLOAD_VALIDATION_MSG path

datatype mode = Mode_rb | Mode_wb | Mode_ab

datatype request =
    HEAD string
  | GET string "(string \<times> string) list option"

datatype event =
    Printed message
  | Warned string
  | Request request
  | Open path mode

text \<open>
  The header \<^verbatim>\<open>content-length\<close> of a response, by what
  \<^verbatim>\<open>int(r.headers.get('content-length', 0))\<close> makes of it: the default, a number, or a
  \<^verbatim>\<open>ValueError\<close>.
\<close>

datatype content_length = Absent | Value int | Malformed

record response =
  content_length :: content_length
  iter_content :: "int \<Rightarrow> bytes list \<times> exn option"

type_synonym net = "nat \<Rightarrow> request \<Rightarrow> exn + response"

record world =
  files :: "path \<rightharpoonup> bytes"
  events :: "event list"

type_synonym 'a result = "world \<times> (exn + 'a)"

record definitions =
  program_warning :: int
  program_progress :: int
  thread_warnings :: int
  raw_warnings :: int

record 's sha256 =
  sha_new :: 's
  sha_update :: "'s \<Rightarrow> bytes \<Rightarrow> 's"
  sha_hexdigest :: "'s \<Rightarrow> string"

record SafeDownloader =
  base :: string
  urls :: "string list"
  url_hashes :: "string list option"
  file_names :: "string list"
  outfile :: string
  block_size :: int
  self_v :: int

subsection \<open>Python's list indexing, integer formatting and exception flow\<close>

definition getitem :: "'a list \<Rightarrow> int \<Rightarrow> exn + 'a" where
  "getitem xs i =
     (if 0 \<le> i \<and> i < int (length xs) then Inr (xs ! nat i)
      else if - int (length xs) \<le> i \<and> i < 0 then Inr (xs ! nat (i + int (length xs)))
      else Inl IndexError)"

fun str_nat :: "nat \<Rightarrow> string" where
  "str_nat n =
     (if n < 10 then [''0123456789'' ! n]
      else str_nat (n div 10) @ [''0123456789'' ! (n mod 10)])"

declare str_nat.simps [simp del]

definition str_int :: "int \<Rightarrow> string" where
  "str_int i = (if i < 0 then CHR ''-'' # str_nat (nat (- i)) else str_nat (nat i))"

text \<open>
  Sequencing: the second statement runs in the world the first one left, unless the
  first one raised.
\<close>

definition and_then :: "'a result \<Rightarrow> ('a \<Rightarrow> world \<Rightarrow> 'b result) \<Rightarrow> 'b result" where
  "and_then m k = (case m of (w, Inl e) \<Rightarrow> (w, Inl e) | (w, Inr x) \<Rightarrow> k x w)"

definition lift :: "exn + 'a \<Rightarrow> world \<Rightarrow> 'a result" where
  "lift r w = (w, r)"

subsection \<open>The leveled console\<close>

definition print_if :: "int \<Rightarrow> int \<Rightarrow> message \<Rightarrow> world \<Rightarrow> world" where
  "print_if verbose thr text w =
     (if verbose \<ge> thr then w\<lparr>events := events w @ [Printed text]\<rparr> else w)"

definition warn_if :: "int \<Rightarrow> int \<Rightarrow> string \<Rightarrow> world \<Rightarrow> world" where
  "warn_if verbose thr text w =
     (if verbose \<ge> thr then w\<lparr>events := events w @ [Warned text]\<rparr> else w)"

subsection \<open>safe_get_request\<close>

text \<open>
  \<open>session url timeout\<close> is what \<^verbatim>\<open>session.get(url, timeout=timeout)\<close> does at the moment
  of the call. \<^verbatim>\<open>f"{e}"\<close> is the text the \<open>ConnectionError\<close> carries.
\<close>

definition safe_get_request ::
  "('u \<Rightarrow> 't \<Rightarrow> exn + 'r) \<Rightarrow> 'u \<Rightarrow> 't \<Rightarrow> int \<Rightarrow> string \<Rightarrow> 'r \<Rightarrow> int \<Rightarrow> int \<Rightarrow> world \<Rightarrow> 'r result" where
  "safe_get_request session url timeout verbose_level warning_msg return_on_failure
       warning_thr raw_err_thr w =
     (case session url timeout of
        Inr r \<Rightarrow> (w, Inr r)
      | Inl ex \<Rightarrow>
          (case ex of
             ConnectionError e \<Rightarrow>
               (warn_if verbose_level raw_err_thr e
                  (warn_if verbose_level warning_thr warning_msg w),
                Inr return_on_failure)
           | _ \<Rightarrow> (w, Inl ex)))"

subsection \<open>The network and the files\<close>

fun is_request :: "event \<Rightarrow> bool" where
  "is_request (Request r) = True"
| "is_request e = False"

definition sent :: "world \<Rightarrow> nat" where
  "sent w = length (filter is_request (events w))"

text \<open>\<^verbatim>\<open>requests.head(url)\<close> and \<^verbatim>\<open>requests.get(url, stream=True, headers=...)\<close>.\<close>

definition send :: "net \<Rightarrow> request \<Rightarrow> world \<Rightarrow> response result" where
  "send net rq w = (w\<lparr>events := events w @ [Request rq]\<rparr>, net (sent w) rq)"

fun header_int :: "content_length \<Rightarrow> exn + int" where
  "header_int Absent = Inr 0"
| "header_int (Value n) = Inr n"
| "header_int Malformed = Inl ValueError"

text \<open>
  \<^verbatim>\<open>open(file, 'wb')\<close> creates the file or empties it, \<^verbatim>\<open>open(file, 'ab')\<close> creates it or
  keeps what it holds.
\<close>

definition open_write :: "path \<Rightarrow> mode \<Rightarrow> world \<Rightarrow> world" where
  "open_write f m w =
     w\<lparr>files := (files w)(f \<mapsto>
            (if m = Mode_ab then (case files w f of None \<Rightarrow> [] | Some old \<Rightarrow> old) else [])),
       events := events w @ [Open f m]\<rparr>"

text \<open>\<^verbatim>\<open>f.write(chunk)\<close> on a file open for writing puts the chunk at its end.\<close>

definition file_write :: "path \<Rightarrow> bytes \<Rightarrow> world \<Rightarrow> world" where
  "file_write f chunk w =
     w\<lparr>files := (files w)(f \<mapsto> (case files w f of None \<Rightarrow> chunk | Some old \<Rightarrow> old @ chunk))\<rparr>"

text \<open>
  \<^verbatim>\<open>for chunk in r.iter_content(...): f.write(chunk)\<close>, over the chunks the response
  yields.
\<close>

fun write_chunks :: "path \<Rightarrow> bytes list \<Rightarrow> world \<Rightarrow> world" where
  "write_chunks f [] w = w"
| "write_chunks f (chunk # rest) w = write_chunks f rest (file_write f chunk w)"

subsection \<open>SafeDownloader.downloader\<close>

text \<open>
  \<^verbatim>\<open>if resume_byte_pos\<close>: \<^verbatim>\<open>None\<close> and \<open>0\<close> are false, every other integer is true.
\<close>

definition truthy :: "int option \<Rightarrow> bool" where
  "truthy r = (case r of None \<Rightarrow> False | Some n \<Rightarrow> n \<noteq> 0)"

definition resume_header :: "int option \<Rightarrow> (string \<times> string) list option" where
  "resume_header resume_byte_pos =
     (case resume_byte_pos of
        None \<Rightarrow> None
      | Some n \<Rightarrow> if n \<noteq> 0 then Some [(''Range'', ''bytes='' @ str_int n @ ''-'')] else None)"

definition downloader :: "net \<Rightarrow> SafeDownloader \<Rightarrow> int \<Rightarrow> int option \<Rightarrow> world \<Rightarrow> unit result" where
  "downloader net self position resume_byte_pos w0 =
     and_then (lift (getitem (urls self) position) w0) (\<lambda>url w.
     and_then (send net (HEAD url) w) (\<lambda>r w.
     and_then (lift (header_int (content_length r)) w) (\<lambda>file_size w.
     and_then (send net (GET url (resume_header resume_byte_pos)) w) (\<lambda>r w.
     and_then (lift (getitem (file_names self) position) w) (\<lambda>name w.
       let mode = (if truthy resume_byte_pos then Mode_ab else Mode_wb);
           file = Path (outfile self) name;
           (chunks, failure) = iter_content r (32 * block_size self);
           w = write_chunks file chunks (open_write file mode w)
       in (w, case failure of None \<Rightarrow> Inr () | Some e \<Rightarrow> Inl e))))))"

subsection \<open>SafeDownloader.download_file\<close>

definition download_file :: "net \<Rightarrow> definitions \<Rightarrow> SafeDownloader \<Rightarrow> int \<Rightarrow> world \<Rightarrow> unit result" where
  "download_file net D self position w0 =
     and_then (lift (getitem (urls self) position) w0) (\<lambda>url w.
     and_then (send net (HEAD url) w) (\<lambda>r w.
     and_then (lift (header_int (content_length r)) w) (\<lambda>file_size_online w.
     and_then (lift (getitem (file_names self) position) w) (\<lambda>name w.
       let file = Path (outfile self) name in
       (case files w file of
          Some content \<Rightarrow>
            let file_size_offline = int (length content) in
            if file_size_online \<noteq> file_size_offline then
              downloader net self position (Some file_size_offline)
                (print_if (self_v self) (program_warning D) (DOWNLOAD_INCOMPLETE_WRN file) w)
            else
              (print_if (self_v self) (program_progress D) (DOWNLOAD_COMPLETE_MSG file) w, Inr ())
        | None \<Rightarrow>
            downloader net self position None
              (print_if (self_v self) (program_progress D) (DOWNLOAD_START_MSG file) w))))))"

subsection \<open>SafeDownloader.validate_file\<close>

text \<open>
  The loop \<^verbatim>\<open>while True: chunk = f.read(n); if not chunk: break; sha.update(chunk)\<close> over
  what is left of the file; \<^verbatim>\<open>validate_file\<close> runs it with \<open>n = 1000 * 1000\<close>.
\<close>

function read_loop :: "'s sha256 \<Rightarrow> nat \<Rightarrow> 's \<Rightarrow> bytes \<Rightarrow> 's" where
  "read_loop H n sha rest =
     (if take n rest = [] then sha
      else read_loop H n (sha_update H sha (take n rest)) (drop n rest))"
  by pat_completeness auto
termination
  by (relation "measure (\<lambda>(H, n, sha, rest). length rest)") auto

declare read_loop.simps [simp del]

text \<open>
  \<^verbatim>\<open>self.url_hashes[position]\<close>: a \<^verbatim>\<open>TypeError\<close> when \<^verbatim>\<open>url_hashes\<close> is \<^verbatim>\<open>None\<close> (the
  constructor's default), an \<^verbatim>\<open>IndexError\<close> when the list is too short.
\<close>

definition hash_at :: "SafeDownloader \<Rightarrow> int \<Rightarrow> exn + string" where
  "hash_at self position =
     (case url_hashes self of None \<Rightarrow> Inl TypeError | Some hs \<Rightarrow> getitem hs position)"

text \<open>
  The return value is \<open>Some 0\<close> for \<^verbatim>\<open>return 0\<close> and \<open>None\<close> where the function falls off
  its end.
\<close>

definition validate_file ::
  "'s sha256 \<Rightarrow> definitions \<Rightarrow> SafeDownloader \<Rightarrow> int \<Rightarrow> world \<Rightarrow> int option result" where
  "validate_file H D self position w0 =
     and_then (lift (getitem (file_names self) position) w0) (\<lambda>name w.
       let file = Path (outfile self) name in
       (case hash_at self position of
          Inl e \<Rightarrow>
            if e = IndexError then
              (print_if (self_v self) (program_warning D) (DOWNLOAD_NO_HASH_ERR (path_name file)) w,
               Inr (Some 0))
            else (w, Inl e)
        | Inr hash \<Rightarrow>
            (case files w file of
               None \<Rightarrow> (w, Inl FileNotFoundError)
             | Some content \<Rightarrow>
                 let w = w\<lparr>events := events w @ [Open file Mode_rb]\<rparr>;
                     sha = read_loop H (1000 * 1000) (sha_new H) content
                 in if sha_hexdigest H sha = hash then
                      (print_if (self_v self) (program_progress D) (DOWNLOAD_VALIDATION_MSG file) w,
                       Inr None)
                    else
                      (print_if (self_v self) (program_warning D) (DOWNLOAD_CORRUPTION_ERR name) w,
                       Inr None))))"

subsection \<open>SafeDownloader.download and SafeDownloader.validate\<close>

text \<open>\<^verbatim>\<open>for position in ...: self.download_file(position)\<close>, over the positions left.\<close>

fun download_loop :: "net \<Rightarrow> definitions \<Rightarrow> SafeDownloader \<Rightarrow> int list \<Rightarrow> world \<Rightarrow> unit result" where
  "download_loop net D self [] w = (w, Inr ())"
| "download_loop net D self (position # rest) w =
     (case download_file net D self position w of
        (w', Inl e) \<Rightarrow> (w', Inl e)
      | (w', Inr u) \<Rightarrow> download_loop net D self rest w')"

fun validate_loop :: "'s sha256 \<Rightarrow> definitions \<Rightarrow> SafeDownloader \<Rightarrow> int list \<Rightarrow> world \<Rightarrow> unit result" where
  "validate_loop H D self [] w = (w, Inr ())"
| "validate_loop H D self (position # rest) w =
     (case validate_file H D self position w of
        (w', Inl e) \<Rightarrow> (w', Inl e)
      | (w', Inr u) \<Rightarrow> validate_loop H D self rest w')"

text \<open>\<^verbatim>\<open>range(len(self.urls))\<close>.\<close>

definition positions :: "SafeDownloader \<Rightarrow> int list" where
  "positions self = map int [0..<length (urls self)]"

definition download :: "net \<Rightarrow> definitions \<Rightarrow> SafeDownloader \<Rightarrow> world \<Rightarrow> unit result" where
  "download net D self w = download_loop net D self (positions self) w"

definition validate :: "'s sha256 \<Rightarrow> definitions \<Rightarrow> SafeDownloader \<Rightarrow> world \<Rightarrow> unit result" where
  "validate H D self w = validate_loop H D self (positions self) w"

subsection \<open>What the claims are stated with\<close>

text \<open>
  What \<^verbatim>\<open>hashlib\<close> promises of a hash object: feeding it two pieces one after the other is
  feeding it their concatenation, and feeding it nothing changes nothing. The one-shot
  digest of \<open>data\<close> is \<open>sha_hexdigest H (sha_update H (sha_new H) data)\<close>.
\<close>

definition streaming :: "'s sha256 \<Rightarrow> bool" where
  "streaming H =
     ((\<forall>s a b. sha_update H (sha_update H s a) b = sha_update H s (a @ b))
      \<and> (\<forall>s. sha_update H s [] = s))"

text \<open>
  Every item's file is on disk and every probe of its URL, whenever it is sent, reports
  the size of that file.
\<close>

definition all_complete :: "net \<Rightarrow> SafeDownloader \<Rightarrow> world \<Rightarrow> bool" where
  "all_complete net self w =
     (\<forall>i < length (urls self).
        i < length (file_names self)
        \<and> (\<exists>content.
             files w (Path (outfile self) (file_names self ! i)) = Some content
             \<and> (\<forall>t. \<exists>r. net t (HEAD (urls self ! i)) = Inr r
                      \<and> header_int (content_length r) = Inr (int (length content)))))"

text \<open>The events a run added to the trace: those of \<open>w'\<close> after the ones \<open>w\<close> had.\<close>

definition new_events :: "world \<Rightarrow> world \<Rightarrow> event list" where
  "new_events w w' = drop (length (events w)) (events w')"

subsection \<open>Sample inputs\<close>

text \<open>
  Concrete inputs on which the theorems below are evaluated: a hash object that keeps
  what it was fed and whose digest is the decimal length of it (it satisfies
  \<open>streaming\<close>), thresholds, and a downloader of two files with one hash.
\<close>

definition sample_hash :: "bytes sha256" where
  "sample_hash = \<lparr>sha_new = [], sha_update = (\<lambda>s chunk. s @ chunk),
                  sha_hexdigest = (\<lambda>s. str_nat (length s))\<rparr>"

definition sample_D :: definitions where
  "sample_D = \<lparr>program_warning = 1, program_progress = 2, thread_warnings = 2, raw_warnings = 3\<rparr>"

definition sample_self :: SafeDownloader where
  "sample_self = \<lparr>base = [], urls = [''http://a/x'', ''http://a/y''], url_hashes = Some [''3''],
                  file_names = [''x'', ''y''], outfile = ''out'', block_size = 1024, self_v = 2\<rparr>"

definition sample_net :: net where
  "sample_net n rq =
     (case rq of
        HEAD u \<Rightarrow> Inr \<lparr>content_length = Value 5, iter_content = (\<lambda>size. ([], None))\<rparr>
      | GET u h \<Rightarrow>
          Inr \<lparr>content_length = Value 5,
               iter_content = (\<lambda>size.
                 if h = Some [(''Range'', ''bytes=2-'')] then ([[3, 4], [5]], None)
                 else ([[1, 2], [3, 4, 5]], None))\<rparr>)"

text \<open>The same server, except that it refuses the connection for the first URL.\<close>

definition failing_net :: net where
  "failing_net n rq =
     (if rq = HEAD ''http://a/x'' then Inl (ConnectionError ''refused'') else sample_net n rq)"

section \<open>Basic facts\<close>

lemma and_then_Inl [simp]: "and_then (w, Inl e) k = (w, Inl e)"
  by (simp add: and_then_def)

lemma and_then_Inr [simp]: "and_then (w, Inr x) k = k x w"
  by (simp add: and_then_def)

lemma and_then_lift [simp]:
  "and_then (lift r w) k = (case r of Inl e \<Rightarrow> (w, Inl e) | Inr x \<Rightarrow> k x w)"
  by (simp add: lift_def split: sum.splits)

lemma and_then_send [simp]:
  "and_then (send net rq w) k =
     (case net (sent w) rq of
        Inl e \<Rightarrow> (w\<lparr>events := events w @ [Request rq]\<rparr>, Inl e)
      | Inr r \<Rightarrow> k r (w\<lparr>events := events w @ [Request rq]\<rparr>))"
  by (simp add: send_def split: sum.splits)

lemma files_print_if [simp]: "files (print_if v t m w) = files w"
  by (simp add: print_if_def)

lemma events_print_if:
  "events (print_if v t m w) = events w @ (if t \<le> v then [Printed m] else [])"
  by (simp add: print_if_def)

lemma events_warn_if:
  "events (warn_if v t m w) = events w @ (if t \<le> v then [Warned m] else [])"
  by (simp add: warn_if_def)

lemma sent_print_if [simp]: "sent (print_if v t m w) = sent w"
  by (simp add: print_if_def sent_def)

lemma new_events_append [simp]:
  "events w' = events w @ es \<Longrightarrow> new_events w w' = es"
  by (simp add: new_events_def)

section \<open>safe_get_request\<close>

text \<open>
  Claim C9. When \<^verbatim>\<open>session.get\<close> raises a \<^verbatim>\<open>ConnectionError\<close>, \<^verbatim>\<open>safe_get_request\<close> does
  not raise: it returns \<^verbatim>\<open>return_on_failure\<close>, and the trace gains the warning
  \<^verbatim>\<open>warning_msg\<close> exactly when \<^verbatim>\<open>verbose_level >= warning_thr\<close> (followed by the text of
  the exception when \<^verbatim>\<open>verbose_level >= raw_err_thr\<close>). When \<^verbatim>\<open>session.get\<close> returns a
  response, that response is returned and the world is as it was.
\<close>

theorem safe_get_request_sentinel:
  "(session url timeout = Inl (ConnectionError e) \<longrightarrow>
      safe_get_request session url timeout verbose_level warning_msg return_on_failure
          warning_thr raw_err_thr w
        = (warn_if verbose_level raw_err_thr e (warn_if verbose_level warning_thr warning_msg w),
           Inr return_on_failure)
      \<and> events (fst (safe_get_request session url timeout verbose_level warning_msg
            return_on_failure warning_thr raw_err_thr w))
        = events w @ (if warning_thr \<le> verbose_level then [Warned warning_msg] else [])
                   @ (if raw_err_thr \<le> verbose_level then [Warned e] else []))
   \<and> (session url timeout = Inr r \<longrightarrow>
      safe_get_request session url timeout verbose_level warning_msg return_on_failure
          warning_thr raw_err_thr w = (w, Inr r))"
  by (simp add: safe_get_request_def events_warn_if)

theorem safe_get_request_sentinel_witness:
  "safe_get_request (\<lambda>u t. Inl (ConnectionError ''refused'')) ''http://a/x'' (5::nat) 2
       ''connection failed'' (None :: response option) 2 3 \<lparr>files = Map.empty, events = []\<rparr>
     = (\<lparr>files = Map.empty, events = [Warned ''connection failed'']\<rparr>, Inr None)
   \<and> safe_get_request (\<lambda>u t. Inl (ConnectionError ''refused'')) ''http://a/x'' (5::nat) 1
       ''connection failed'' (None :: response option) 2 3 \<lparr>files = Map.empty, events = []\<rparr>
     = (\<lparr>files = Map.empty, events = []\<rparr>, Inr None)
   \<and> safe_get_request (\<lambda>u t. Inr (Some \<lparr>content_length = Value 7, iter_content = \<lambda>n. ([], None)\<rparr>))
       ''http://a/x'' (5::nat) 2 ''connection failed'' None 2 3 \<lparr>files = Map.empty, events = []\<rparr>
     = (\<lparr>files = Map.empty, events = []\<rparr>,
        Inr (Some \<lparr>content_length = Value 7, iter_content = \<lambda>n. ([], None)\<rparr>))"
  using
    safe_get_request_sentinel [where session = "\<lambda>u t. Inl (ConnectionError ''refused'')"
      and url = "''http://a/x''" and timeout = "5::nat" and e = "''refused''"
      and verbose_level = 2 and warning_msg = "''connection failed''"
      and return_on_failure = "None :: response option" and warning_thr = 2 and raw_err_thr = 3
      and w = "\<lparr>files = Map.empty, events = []\<rparr>"]
    safe_get_request_sentinel [where session = "\<lambda>u t. Inl (ConnectionError ''refused'')"
      and url = "''http://a/x''" and timeout = "5::nat" and e = "''refused''"
      and verbose_level = 1 and warning_msg = "''connection failed''"
      and return_on_failure = "None :: response option" and warning_thr = 2 and raw_err_thr = 3
      and w = "\<lparr>files = Map.empty, events = []\<rparr>"]
    safe_get_request_sentinel [where
      session = "\<lambda>u t. Inr (Some \<lparr>content_length = Value 7, iter_content = \<lambda>n. ([], None)\<rparr>)"
      and url = "''http://a/x''" and timeout = "5::nat"
      and r = "Some \<lparr>content_length = Value 7, iter_content = \<lambda>n. ([], None)\<rparr>"
      and verbose_level = 2 and warning_msg = "''connection failed''"
      and return_on_failure = "None" and warning_thr = 2 and raw_err_thr = 3
      and w = "\<lparr>files = Map.empty, events = []\<rparr>"]
  by (simp add: warn_if_def)

section \<open>validate_file\<close>

lemma streaming_sample_hash: "streaming sample_hash"
  by (simp add: streaming_def sample_hash_def)

lemma read_loop_whole:
  "0 < n \<Longrightarrow> streaming H \<Longrightarrow> read_loop H n s rest = sha_update H s rest"
proof (induction H n s rest rule: read_loop.induct)
  case (1 H n sha rest)
  show ?case
  proof (cases "take n rest = []")
    case True
    with "1.prems" have "rest = []" by simp
    with "1.prems" show ?thesis by (simp add: read_loop.simps streaming_def)
  next
    case False
    have "read_loop H n sha rest
        = read_loop H n (sha_update H sha (take n rest)) (drop n rest)"
      using False by (subst read_loop.simps) simp
    also have "\<dots> = sha_update H (sha_update H sha (take n rest)) (drop n rest)"
      using "1.IH" [OF False] "1.prems" by simp
    also have "\<dots> = sha_update H sha (take n rest @ drop n rest)"
      using "1.prems" by (simp add: streaming_def)
    finally show ?thesis by simp
  qed
qed

lemma validate_file_files: "files (fst (validate_file H D self position w)) = files w"
  by (simp add: validate_file_def Let_def split: sum.splits option.splits)

lemma validate_file_events:
  assumes "getitem (file_names self) position = Inr name"
    and "files w1 (Path (outfile self) name) = files w2 (Path (outfile self) name)"
  shows "new_events w1 (fst (validate_file H D self position w1))
       = new_events w2 (fst (validate_file H D self position w2))"
    and "snd (validate_file H D self position w1) = snd (validate_file H D self position w2)"
  using assms
  by (simp_all add: validate_file_def Let_def new_events_def print_if_def
        split: sum.splits option.splits)

text \<open>
  Claim C4. For an item whose file name exists but whose position is out of range of the
  hash list, \<^verbatim>\<open>validate_file\<close> does not raise: it reports \<^verbatim>\<open>DOWNLOAD_NO_HASH_ERR\<close> for
  the file's name through \<^verbatim>\<open>print_if\<close> at the level \<^verbatim>\<open>program_warning\<close> (the outcome
  NoHashAvailable), returns \<open>0\<close> and leaves every file as it was.
\<close>

theorem validate_file_no_hash:
  assumes "getitem (file_names self) position = Inr name"
    and "url_hashes self = Some hs"
    and "getitem hs position = Inl IndexError"
  shows "validate_file H D self position w
           = (print_if (self_v self) (program_warning D)
                (DOWNLOAD_NO_HASH_ERR (path_name (Path (outfile self) name))) w,
              Inr (Some 0))
       \<and> files (fst (validate_file H D self position w)) = files w
       \<and> new_events w (fst (validate_file H D self position w))
           = (if program_warning D \<le> self_v self
              then [Printed (DOWNLOAD_NO_HASH_ERR (path_name (Path (outfile self) name)))]
              else [])"
  using assms
  by (simp add: validate_file_def hash_at_def new_events_def print_if_def)

theorem validate_file_no_hash_witness:
  "validate_file sample_hash sample_D sample_self 1 \<lparr>files = Map.empty, events = []\<rparr>
     = (\<lparr>files = Map.empty, events = [Printed (DOWNLOAD_NO_HASH_ERR ''y'')]\<rparr>, Inr (Some 0))"
  using validate_file_no_hash [where self = sample_self and position = 1 and name = "''y''"
      and hs = "[''3'']" and H = sample_hash and D = sample_D
      and w = "\<lparr>files = Map.empty, events = []\<rparr>"]
  by (simp add: sample_self_def sample_D_def getitem_def print_if_def)

text \<open>
  Claim C10. For an item that has an expected hash but whose destination file does not
  exist, \<^verbatim>\<open>validate_file\<close> raises \<^verbatim>\<open>FileNotFoundError\<close> when it opens the file, nothing
  catches it, and the loop of \<^verbatim>\<open>validate\<close> stops there with the same exception: so
  does \<^verbatim>\<open>validate()\<close> itself when the item is the first one.
\<close>

theorem validate_file_missing_file:
  assumes "getitem (file_names self) position = Inr name"
    and "hash_at self position = Inr h"
    and "files w (Path (outfile self) name) = None"
  shows "validate_file H D self position w = (w, Inl FileNotFoundError)
       \<and> validate_loop H D self (position # rest) w = (w, Inl FileNotFoundError)
       \<and> (position = 0 \<and> urls self \<noteq> [] \<longrightarrow> validate H D self w = (w, Inl FileNotFoundError))"
proof -
  have one: "validate_file H D self position w = (w, Inl FileNotFoundError)"
    using assms by (simp add: validate_file_def)
  have "positions self = 0 # map int [1..<length (urls self)]" if "urls self \<noteq> []"
    using that by (simp add: positions_def upt_conv_Cons)
  with one show ?thesis by (auto simp: validate_def)
qed

theorem validate_file_missing_file_witness:
  "validate_file sample_hash sample_D sample_self 0 \<lparr>files = Map.empty, events = []\<rparr>
     = (\<lparr>files = Map.empty, events = []\<rparr>, Inl FileNotFoundError)
   \<and> validate sample_hash sample_D sample_self \<lparr>files = Map.empty, events = []\<rparr>
     = (\<lparr>files = Map.empty, events = []\<rparr>, Inl FileNotFoundError)"
  using validate_file_missing_file [where self = sample_self and position = 0 and name = "''x''"
      and h = "''3''" and H = sample_hash and D = sample_D
      and w = "\<lparr>files = Map.empty, events = []\<rparr>"]
  by (simp add: sample_self_def getitem_def hash_at_def)

text \<open>
  Claim C6. For an item with an expected hash and a file on disk, \<^verbatim>\<open>validate_file\<close>
  returns without raising, leaves the files as they were, and reports
  \<^verbatim>\<open>DOWNLOAD_VALIDATION_MSG\<close> (through \<^verbatim>\<open>print_if\<close> at the level \<^verbatim>\<open>program_progress\<close>)
  exactly when the digest of the streaming loop equals the expected hash, and
  \<^verbatim>\<open>DOWNLOAD_CORRUPTION_ERR\<close> (at the level \<^verbatim>\<open>program_warning\<close>) exactly when it does not.
\<close>

theorem validate_file_compares:
  assumes "getitem (file_names self) position = Inr name"
    and "hash_at self position = Inr h"
    and "files w (Path (outfile self) name) = Some content"
  shows "let file = Path (outfile self) name;
             digest = sha_hexdigest H (read_loop H (1000 * 1000) (sha_new H) content);
             opened = w\<lparr>events := events w @ [Open file Mode_rb]\<rparr>;
             w' = fst (validate_file H D self position w)
         in validate_file H D self position w
              = (if digest = h
                 then print_if (self_v self) (program_progress D) (DOWNLOAD_VALIDATION_MSG file) opened
                 else print_if (self_v self) (program_warning D) (DOWNLOAD_CORRUPTION_ERR name) opened,
                 Inr None)
          \<and> files w' = files w
          \<and> (Printed (DOWNLOAD_VALIDATION_MSG file) \<in> set (new_events w w')
               \<longleftrightarrow> digest = h \<and> program_progress D \<le> self_v self)
          \<and> (Printed (DOWNLOAD_CORRUPTION_ERR name) \<in> set (new_events w w')
               \<longleftrightarrow> digest \<noteq> h \<and> program_warning D \<le> self_v self)"
  using assms
  by (simp add: validate_file_def Let_def new_events_def print_if_def)

theorem validate_file_compares_witness:
  "validate_file sample_hash sample_D sample_self 0
       \<lparr>files = [Path ''out'' ''x'' \<mapsto> [1, 2, 3]], events = []\<rparr>
     = (\<lparr>files = [Path ''out'' ''x'' \<mapsto> [1, 2, 3]],
         events = [Open (Path ''out'' ''x'') Mode_rb,
                   Printed (DOWNLOAD_VALIDATION_MSG (Path ''out'' ''x''))]\<rparr>, Inr None)
   \<and> validate_file sample_hash sample_D sample_self 0
       \<lparr>files = [Path ''out'' ''x'' \<mapsto> [1, 2]], events = []\<rparr>
     = (\<lparr>files = [Path ''out'' ''x'' \<mapsto> [1, 2]],
         events = [Open (Path ''out'' ''x'') Mode_rb,
                   Printed (DOWNLOAD_CORRUPTION_ERR ''x'')]\<rparr>, Inr None)"
  using
    validate_file_compares [where self = sample_self and position = 0 and name = "''x''"
      and h = "''3''" and H = sample_hash and D = sample_D and content = "[1, 2, 3]"
      and w = "\<lparr>files = [Path ''out'' ''x'' \<mapsto> [1, 2, 3]], events = []\<rparr>"]
    validate_file_compares [where self = sample_self and position = 0 and name = "''x''"
      and h = "''3''" and H = sample_hash and D = sample_D and content = "[1, 2]"
      and w = "\<lparr>files = [Path ''out'' ''x'' \<mapsto> [1, 2]], events = []\<rparr>"]
  by (simp add: sample_self_def sample_D_def sample_hash_def getitem_def hash_at_def
        print_if_def Let_def read_loop.simps str_nat.simps)

text \<open>
  Claim C5. For a hash object that keeps \<^verbatim>\<open>hashlib\<close>'s promise, the digest the loop of
  \<^verbatim>\<open>validate_file\<close> computes in reads of \<open>1000 * 1000\<close> bytes is the digest of the whole
  content fed at once, and it is this one-shot digest of the file that decides what
  \<^verbatim>\<open>validate_file\<close> reports: the validation message when it equals the expected hash, the
  corruption message when it does not. Validating again, in the world the first
  validation left, returns and reports the same. In general, what \<^verbatim>\<open>validate_file\<close>
  returns and reports depends on the world only through the content of the item's file,
  and it leaves the files as they were.
\<close>

theorem validate_file_streaming_digest:
  "(streaming H \<longrightarrow>
      sha_hexdigest H (read_loop H (1000 * 1000) (sha_new H) content)
        = sha_hexdigest H (sha_update H (sha_new H) content))
   \<and> (streaming H \<and> getitem (file_names self) position = Inr name
        \<and> hash_at self position = Inr h
        \<and> files w (Path (outfile self) name) = Some content \<longrightarrow>
      validate_file H D self position w
        = (if sha_hexdigest H (sha_update H (sha_new H) content) = h
           then print_if (self_v self) (program_progress D)
                  (DOWNLOAD_VALIDATION_MSG (Path (outfile self) name))
                  (w\<lparr>events := events w @ [Open (Path (outfile self) name) Mode_rb]\<rparr>)
           else print_if (self_v self) (program_warning D) (DOWNLOAD_CORRUPTION_ERR name)
                  (w\<lparr>events := events w @ [Open (Path (outfile self) name) Mode_rb]\<rparr>),
           Inr None)
      \<and> snd (validate_file H D self position (fst (validate_file H D self position w)))
          = snd (validate_file H D self position w)
      \<and> new_events (fst (validate_file H D self position w))
            (fst (validate_file H D self position (fst (validate_file H D self position w))))
          = new_events w (fst (validate_file H D self position w)))
   \<and> (getitem (file_names self) position = Inr name
        \<and> files w1 (Path (outfile self) name) = files w2 (Path (outfile self) name) \<longrightarrow>
      snd (validate_file H D self position w1) = snd (validate_file H D self position w2)
      \<and> new_events w1 (fst (validate_file H D self position w1))
          = new_events w2 (fst (validate_file H D self position w2)))
   \<and> files (fst (validate_file H D self position w)) = files w"
proof (intro conjI impI)
  assume "streaming H"
  then show "sha_hexdigest H (read_loop H (1000 * 1000) (sha_new H) content)
        = sha_hexdigest H (sha_update H (sha_new H) content)"
    by (simp add: read_loop_whole)
next
  assume a: "streaming H \<and> getitem (file_names self) position = Inr name
        \<and> hash_at self position = Inr h
        \<and> files w (Path (outfile self) name) = Some content"
  then have loop: "read_loop H (1000 * 1000) (sha_new H) content
      = sha_update H (sha_new H) content"
    by (simp add: read_loop_whole)
  from a show tied: "validate_file H D self position w
        = (if sha_hexdigest H (sha_update H (sha_new H) content) = h
           then print_if (self_v self) (program_progress D)
                  (DOWNLOAD_VALIDATION_MSG (Path (outfile self) name))
                  (w\<lparr>events := events w @ [Open (Path (outfile self) name) Mode_rb]\<rparr>)
           else print_if (self_v self) (program_warning D) (DOWNLOAD_CORRUPTION_ERR name)
                  (w\<lparr>events := events w @ [Open (Path (outfile self) name) Mode_rb]\<rparr>),
           Inr None)"
    using loop by (simp add: validate_file_def Let_def)
  from a have name: "getitem (file_names self) position = Inr name"
    by blast
  have same: "files (fst (validate_file H D self position w)) (Path (outfile self) name)
      = files w (Path (outfile self) name)"
    by (simp add: validate_file_files)
  show "snd (validate_file H D self position (fst (validate_file H D self position w)))
          = snd (validate_file H D self position w)"
    by (rule validate_file_events(2) [OF name same])
  show "new_events (fst (validate_file H D self position w))
            (fst (validate_file H D self position (fst (validate_file H D self position w))))
          = new_events w (fst (validate_file H D self position w))"
    by (rule validate_file_events(1) [OF name same])
next
  assume b: "getitem (file_names self) position = Inr name
        \<and> files w1 (Path (outfile self) name) = files w2 (Path (outfile self) name)"
  then have name: "getitem (file_names self) position = Inr name"
    and same: "files w1 (Path (outfile self) name) = files w2 (Path (outfile self) name)"
    by blast+
  show "snd (validate_file H D self position w1) = snd (validate_file H D self position w2)"
    by (rule validate_file_events(2) [OF name same])
  show "new_events w1 (fst (validate_file H D self position w1))
          = new_events w2 (fst (validate_file H D self position w2))"
    by (rule validate_file_events(1) [OF name same])
next
  show "files (fst (validate_file H D self position w)) = files w"
    by (rule validate_file_files)
qed

theorem validate_file_streaming_digest_witness:
  "validate_file sample_hash sample_D (sample_self\<lparr>url_hashes := Some [''1000001'']\<rparr>) 0
       \<lparr>files = [Path ''out'' ''x'' \<mapsto> replicate 1000001 7], events = []\<rparr>
     = (\<lparr>files = [Path ''out'' ''x'' \<mapsto> replicate 1000001 7],
         events = [Open (Path ''out'' ''x'') Mode_rb,
                   Printed (DOWNLOAD_VALIDATION_MSG (Path ''out'' ''x''))]\<rparr>, Inr None)
   \<and> validate_file sample_hash sample_D sample_self 0
       \<lparr>files = [Path ''out'' ''x'' \<mapsto> replicate 1000001 7], events = []\<rparr>
     = (\<lparr>files = [Path ''out'' ''x'' \<mapsto> replicate 1000001 7],
         events = [Open (Path ''out'' ''x'') Mode_rb,
                   Printed (DOWNLOAD_CORRUPTION_ERR ''x'')]\<rparr>, Inr None)
   \<and> sha_hexdigest sample_hash
         (read_loop sample_hash (1000 * 1000) (sha_new sample_hash) (replicate 1000001 7))
       = ''1000001''
   \<and> read_loop \<lparr>sha_new = 0 :: nat, sha_update = (\<lambda>reads chunk. Suc reads),
                  sha_hexdigest = str_nat\<rparr> (1000 * 1000) 0 (replicate 1000001 7) = 2"
proof -
  let ?w = "\<lparr>files = [Path ''out'' ''x'' \<mapsto> replicate 1000001 (7 :: byte)], events = []\<rparr>"
  have digits: "str_nat 1000001 = ''1000001''"
    by (simp add: str_nat.simps)
  have one_shot: "sha_hexdigest sample_hash
      (sha_update sample_hash (sha_new sample_hash) (replicate 1000001 7)) = ''1000001''"
    by (simp add: sample_hash_def digits)
  have matches: "validate_file sample_hash sample_D
        (sample_self\<lparr>url_hashes := Some [''1000001'']\<rparr>) 0 ?w
      = (\<lparr>files = [Path ''out'' ''x'' \<mapsto> replicate 1000001 7],
          events = [Open (Path ''out'' ''x'') Mode_rb,
                    Printed (DOWNLOAD_VALIDATION_MSG (Path ''out'' ''x''))]\<rparr>, Inr None)"
    using validate_file_streaming_digest [where H = sample_hash
        and self = "sample_self\<lparr>url_hashes := Some [''1000001'']\<rparr>" and position = 0
        and name = "''x''" and h = "''1000001''" and D = sample_D and w = ?w
        and content = "replicate 1000001 7"]
      streaming_sample_hash
    by (simp add: one_shot sample_self_def sample_D_def getitem_def hash_at_def print_if_def)
  have differs: "validate_file sample_hash sample_D sample_self 0 ?w
      = (\<lparr>files = [Path ''out'' ''x'' \<mapsto> replicate 1000001 7],
          events = [Open (Path ''out'' ''x'') Mode_rb,
                    Printed (DOWNLOAD_CORRUPTION_ERR ''x'')]\<rparr>, Inr None)"
    using validate_file_streaming_digest [where H = sample_hash
        and self = sample_self and position = 0
        and name = "''x''" and h = "''3''" and D = sample_D and w = ?w
        and content = "replicate 1000001 7"]
      streaming_sample_hash
    by (simp add: one_shot sample_self_def sample_D_def getitem_def hash_at_def print_if_def)
  have streamed: "sha_hexdigest sample_hash
         (read_loop sample_hash (1000 * 1000) (sha_new sample_hash) (replicate 1000001 7))
       = ''1000001''"
    using validate_file_streaming_digest [where H = sample_hash
        and content = "replicate 1000001 7"] streaming_sample_hash
    by (simp add: one_shot)
  have two_reads: "read_loop \<lparr>sha_new = 0 :: nat, sha_update = (\<lambda>reads chunk. Suc reads),
                  sha_hexdigest = str_nat\<rparr> (1000 * 1000) 0 (replicate 1000001 (7 :: byte)) = 2"
    by (simp add: read_loop.simps)
  from matches differs streamed two_reads show ?thesis
    by (intro conjI)
qed

section \<open>downloader and download_file\<close>

lemma events_write_chunks [simp]: "events (write_chunks f cs w) = events w"
  by (induction cs arbitrary: w) (simp_all add: file_write_def)

lemma files_write_chunks:
  "files w f = Some old \<Longrightarrow> files (write_chunks f cs w) = (files w)(f \<mapsto> old @ concat cs)"
proof (induction cs arbitrary: w old)
  case Nil
  then show ?case by (simp add: map_upd_triv)
next
  case (Cons c cs)
  have "files (file_write f c w) f = Some (old @ c)"
    using Cons.prems by (simp add: file_write_def)
  from Cons.IH [OF this] show ?case
    using Cons.prems by (simp add: file_write_def fun_eq_iff)
qed

lemma files_open_write:
  "files (open_write f m w) f
     = Some (if m = Mode_ab then (case files w f of None \<Rightarrow> [] | Some old \<Rightarrow> old) else [])"
  by (simp add: open_write_def)

lemma files_fetch:
  "files (write_chunks f cs (open_write f m w))
     = (files w)(f \<mapsto>
         (if m = Mode_ab then (case files w f of None \<Rightarrow> [] | Some old \<Rightarrow> old) else [])
           @ concat cs)"
proof -
  have "files (write_chunks f cs (open_write f m w))
      = (files (open_write f m w))(f \<mapsto>
          (if m = Mode_ab then (case files w f of None \<Rightarrow> [] | Some old \<Rightarrow> old) else [])
            @ concat cs)"
    by (rule files_write_chunks [OF files_open_write])
  also have "\<dots> = (files w)(f \<mapsto>
          (if m = Mode_ab then (case files w f of None \<Rightarrow> [] | Some old \<Rightarrow> old) else [])
            @ concat cs)"
    by (simp add: open_write_def)
  finally show ?thesis .
qed

lemma events_open_write [simp]: "events (open_write f m w) = events w @ [Open f m]"
  by (simp add: open_write_def)

lemma events_fetch:
  "events (write_chunks f cs (open_write f m w)) = events w @ [Open f m]"
  by (simp add: open_write_def)

lemma sent_request [simp]:
  "sent (w\<lparr>events := events w @ [Request rq]\<rparr>) = Suc (sent w)"
  by (simp add: sent_def)

text \<open>What \<open>downloader\<close> does when both requests are answered.\<close>

lemma downloader_run:
  assumes "getitem (urls self) position = Inr url"
    and "getitem (file_names self) position = Inr name"
    and "net (sent w) (HEAD url) = Inr r1"
    and "header_int (content_length r1) = Inr n"
    and "net (Suc (sent w)) (GET url (resume_header resume_byte_pos)) = Inr r2"
    and "iter_content r2 (32 * block_size self) = (chunks, failure)"
  shows "downloader net self position resume_byte_pos w
      = (write_chunks (Path (outfile self) name) chunks
           (open_write (Path (outfile self) name)
              (if truthy resume_byte_pos then Mode_ab else Mode_wb)
              (w\<lparr>events := events w @ [Request (HEAD url),
                    Request (GET url (resume_header resume_byte_pos))]\<rparr>)),
         case failure of None \<Rightarrow> Inr () | Some e \<Rightarrow> Inl e)"
  using assms by (simp add: downloader_def Let_def)

text \<open>What \<open>downloader\<close> adds to the trace, however the requests are answered.\<close>

lemma downloader_trace:
  assumes "getitem (urls self) position = Inr url"
    and "getitem (file_names self) position = Inr name"
  shows "\<exists>k. new_events w (fst (downloader net self position resume_byte_pos w))
           = take k [Request (HEAD url),
                     Request (GET url (resume_header resume_byte_pos)),
                     Open (Path (outfile self) name)
                       (if truthy resume_byte_pos then Mode_ab else Mode_wb)]"
proof (cases "net (sent w) (HEAD url)")
  case (Inl e)
  then have "new_events w (fst (downloader net self position resume_byte_pos w))
           = take 1 [Request (HEAD url),
                     Request (GET url (resume_header resume_byte_pos)),
                     Open (Path (outfile self) name)
                       (if truthy resume_byte_pos then Mode_ab else Mode_wb)]"
    using assms by (simp add: downloader_def new_events_def)
  then show ?thesis by blast
next
  case r1: (Inr r1)
  show ?thesis
  proof (cases "header_int (content_length r1)")
    case (Inl e)
    then have "new_events w (fst (downloader net self position resume_byte_pos w))
           = take 1 [Request (HEAD url),
                     Request (GET url (resume_header resume_byte_pos)),
                     Open (Path (outfile self) name)
                       (if truthy resume_byte_pos then Mode_ab else Mode_wb)]"
      using assms r1 by (simp add: downloader_def new_events_def)
    then show ?thesis by blast
  next
    case n: (Inr n)
    show ?thesis
    proof (cases "net (Suc (sent w)) (GET url (resume_header resume_byte_pos))")
      case (Inl e)
      then have "new_events w (fst (downloader net self position resume_byte_pos w))
           = take 2 [Request (HEAD url),
                     Request (GET url (resume_header resume_byte_pos)),
                     Open (Path (outfile self) name)
                       (if truthy resume_byte_pos then Mode_ab else Mode_wb)]"
        using assms r1 n by (simp add: downloader_def new_events_def)
      then show ?thesis by blast
    next
      case (Inr r2)
      obtain chunks failure where "iter_content r2 (32 * block_size self) = (chunks, failure)"
        by (cases "iter_content r2 (32 * block_size self)")
      from downloader_run [OF assms r1 n Inr this]
      have "new_events w (fst (downloader net self position resume_byte_pos w))
           = take 3 [Request (HEAD url),
                     Request (GET url (resume_header resume_byte_pos)),
                     Open (Path (outfile self) name)
                       (if truthy resume_byte_pos then Mode_ab else Mode_wb)]"
        by (simp add: new_events_def events_fetch)
      then show ?thesis by blast
    qed
  qed
qed

lemma events_downloader_grow:
  "\<exists>es. events (fst (downloader net self position resume_byte_pos w)) = events w @ es"
  by (simp add: downloader_def Let_def split: sum.splits prod.splits)

lemma new_events_trans:
  assumes "events w1 = events w @ es"
    and "events w2 = events w1 @ fs"
  shows "new_events w w2 = es @ new_events w1 w2"
  using assms by (simp add: new_events_def)

lemma download_file_probe:
  assumes "getitem (urls self) position = Inr url"
    and "getitem (file_names self) position = Inr name"
    and "net (sent w) (HEAD url) = Inr r"
    and "header_int (content_length r) = Inr R"
  shows "download_file net D self position w
      = (case files w (Path (outfile self) name) of
           Some content \<Rightarrow>
             if R \<noteq> int (length content) then
               downloader net self position (Some (int (length content)))
                 (print_if (self_v self) (program_warning D)
                    (DOWNLOAD_INCOMPLETE_WRN (Path (outfile self) name))
                    (w\<lparr>events := events w @ [Request (HEAD url)]\<rparr>))
             else
               (print_if (self_v self) (program_progress D)
                  (DOWNLOAD_COMPLETE_MSG (Path (outfile self) name))
                  (w\<lparr>events := events w @ [Request (HEAD url)]\<rparr>), Inr ())
         | None \<Rightarrow>
             downloader net self position None
               (print_if (self_v self) (program_progress D)
                  (DOWNLOAD_START_MSG (Path (outfile self) name))
                  (w\<lparr>events := events w @ [Request (HEAD url)]\<rparr>)))"
  using assms by (simp add: download_file_def Let_def split: option.splits)

text \<open>
  A fetch that follows the probe and a message: its trace and, when both of its requests
  are answered, its effect on the files.
\<close>

lemma fetch_after_report:
  assumes url: "getitem (urls self) position = Inr url"
    and name: "getitem (file_names self) position = Inr name"
    and w1: "w1 = print_if v thr msg (w\<lparr>events := events w @ [Request (HEAD url)]\<rparr>)"
    and w': "w' = fst (downloader net self position rb w1)"
  shows "\<exists>k. new_events w w'
           = Request (HEAD url) # (if thr \<le> v then [Printed msg] else [])
             @ take k [Request (HEAD url), Request (GET url (resume_header rb)),
                       Open (Path (outfile self) name) (if truthy rb then Mode_ab else Mode_wb)]"
    and "net (Suc (sent w)) (HEAD url) = Inr r1 \<Longrightarrow> header_int (content_length r1) = Inr n \<Longrightarrow>
         net (Suc (Suc (sent w))) (GET url (resume_header rb)) = Inr r2 \<Longrightarrow>
         iter_content r2 (32 * block_size self) = (chunks, failure) \<Longrightarrow>
         new_events w w'
           = Request (HEAD url) # (if thr \<le> v then [Printed msg] else [])
             @ [Request (HEAD url), Request (GET url (resume_header rb)),
                Open (Path (outfile self) name) (if truthy rb then Mode_ab else Mode_wb)]
         \<and> files w' = (files w)(Path (outfile self) name \<mapsto>
              (if truthy rb
               then (case files w (Path (outfile self) name) of None \<Rightarrow> [] | Some old \<Rightarrow> old)
               else []) @ concat chunks)
         \<and> snd (downloader net self position rb w1)
             = (case failure of None \<Rightarrow> Inr () | Some e \<Rightarrow> Inl e)"
proof -
  have ev1: "events w1 = events w @ (Request (HEAD url) # (if thr \<le> v then [Printed msg] else []))"
    by (simp add: w1 events_print_if)
  obtain fs where fs: "events w' = events w1 @ fs"
    using events_downloader_grow [of net self position rb w1] by (auto simp: w')
  have split: "new_events w w'
      = (Request (HEAD url) # (if thr \<le> v then [Printed msg] else [])) @ new_events w1 w'"
    by (rule new_events_trans [OF ev1 fs])
  obtain k where "new_events w1 w'
      = take k [Request (HEAD url), Request (GET url (resume_header rb)),
                Open (Path (outfile self) name) (if truthy rb then Mode_ab else Mode_wb)]"
    using downloader_trace [OF url name, of w1 net rb] by (auto simp: w')
  with split show "\<exists>k. new_events w w'
           = Request (HEAD url) # (if thr \<le> v then [Printed msg] else [])
             @ take k [Request (HEAD url), Request (GET url (resume_header rb)),
                       Open (Path (outfile self) name) (if truthy rb then Mode_ab else Mode_wb)]"
    by auto
next
  assume r1: "net (Suc (sent w)) (HEAD url) = Inr r1"
    and n: "header_int (content_length r1) = Inr n"
    and r2: "net (Suc (Suc (sent w))) (GET url (resume_header rb)) = Inr r2"
    and body: "iter_content r2 (32 * block_size self) = (chunks, failure)"
  have s1: "sent w1 = Suc (sent w)"
    by (simp add: w1)
  have f1: "files w1 = files w"
    by (simp add: w1)
  have ev1: "events w1 = events w @ (Request (HEAD url) # (if thr \<le> v then [Printed msg] else []))"
    by (simp add: w1 events_print_if)
  have run: "downloader net self position rb w1
      = (write_chunks (Path (outfile self) name) chunks
           (open_write (Path (outfile self) name) (if truthy rb then Mode_ab else Mode_wb)
              (w1\<lparr>events := events w1 @ [Request (HEAD url),
                    Request (GET url (resume_header rb))]\<rparr>)),
         case failure of None \<Rightarrow> Inr () | Some e \<Rightarrow> Inl e)"
    using r1 n r2 body by (intro downloader_run [OF url name]) (simp_all add: s1)
  have "events w' = events w @ (Request (HEAD url) # (if thr \<le> v then [Printed msg] else [])
             @ [Request (HEAD url), Request (GET url (resume_header rb)),
                Open (Path (outfile self) name) (if truthy rb then Mode_ab else Mode_wb)])"
    by (simp add: w' run ev1)
  then have "new_events w w' = Request (HEAD url) # (if thr \<le> v then [Printed msg] else [])
             @ [Request (HEAD url), Request (GET url (resume_header rb)),
                Open (Path (outfile self) name) (if truthy rb then Mode_ab else Mode_wb)]"
    by (rule new_events_append)
  moreover have "files w' = (files w)(Path (outfile self) name \<mapsto>
              (if truthy rb
               then (case files w (Path (outfile self) name) of None \<Rightarrow> [] | Some old \<Rightarrow> old)
               else []) @ concat chunks)"
    by (simp add: w' run files_fetch f1)
  moreover have "snd (downloader net self position rb w1)
             = (case failure of None \<Rightarrow> Inr () | Some e \<Rightarrow> Inl e)"
    by (simp add: run)
  ultimately show "new_events w w'
           = Request (HEAD url) # (if thr \<le> v then [Printed msg] else [])
             @ [Request (HEAD url), Request (GET url (resume_header rb)),
                Open (Path (outfile self) name) (if truthy rb then Mode_ab else Mode_wb)]
         \<and> files w' = (files w)(Path (outfile self) name \<mapsto>
              (if truthy rb
               then (case files w (Path (outfile self) name) of None \<Rightarrow> [] | Some old \<Rightarrow> old)
               else []) @ concat chunks)
         \<and> snd (downloader net self position rb w1)
             = (case failure of None \<Rightarrow> Inr () | Some e \<Rightarrow> Inl e)"
    by simp
qed

text \<open>
  Claim C1, amended. For an item whose destination file exists with a size \<open>L > 0\<close> that
  differs from the probed size, \<^verbatim>\<open>download_file\<close> reports \<^verbatim>\<open>DOWNLOAD_INCOMPLETE_WRN\<close>
  (through \<^verbatim>\<open>print_if\<close> at the level \<^verbatim>\<open>program_warning\<close>) and calls \<^verbatim>\<open>downloader\<close> with
  \<^verbatim>\<open>resume_byte_pos = L\<close>. Whatever the network answers, every content request it sends
  carries \<^verbatim>\<open>Range: bytes=L-\<close> and every file it opens is the destination in mode
  \<^verbatim>\<open>'ab'\<close>; when \<^verbatim>\<open>downloader\<close>'s probe and its content request are answered, the
  request is sent, the file is opened, and the chunks received are appended to what the
  file held.
\<close>

theorem download_file_resumes:
  assumes "getitem (urls self) position = Inr url"
    and "getitem (file_names self) position = Inr name"
    and "net (sent w) (HEAD url) = Inr r"
    and "header_int (content_length r) = Inr R"
    and "files w (Path (outfile self) name) = Some content"
    and "R \<noteq> int (length content)"
    and "content \<noteq> []"
  shows "let file = Path (outfile self) name;
             L = int (length content);
             range = Some [(''Range'', ''bytes='' @ str_int L @ ''-'')];
             report = (if program_warning D \<le> self_v self
                       then [Printed (DOWNLOAD_INCOMPLETE_WRN file)] else []);
             w' = fst (download_file net D self position w)
         in download_file net D self position w
              = downloader net self position (Some L)
                  (print_if (self_v self) (program_warning D) (DOWNLOAD_INCOMPLETE_WRN file)
                     (w\<lparr>events := events w @ [Request (HEAD url)]\<rparr>))
          \<and> (\<exists>k. new_events w w'
                 = Request (HEAD url) # report
                   @ take k [Request (HEAD url), Request (GET url range), Open file Mode_ab])
          \<and> (\<forall>r1 n r2 chunks failure.
                net (Suc (sent w)) (HEAD url) = Inr r1 \<and> header_int (content_length r1) = Inr n
                \<and> net (Suc (Suc (sent w))) (GET url range) = Inr r2
                \<and> iter_content r2 (32 * block_size self) = (chunks, failure) \<longrightarrow>
                new_events w w'
                  = Request (HEAD url) # report
                    @ [Request (HEAD url), Request (GET url range), Open file Mode_ab]
                \<and> files w' = (files w)(file \<mapsto> content @ concat chunks)
                \<and> snd (download_file net D self position w)
                    = (case failure of None \<Rightarrow> Inr () | Some e \<Rightarrow> Inl e))"
proof -
  define dest where "dest = Path (outfile self) name"
  define L where "L = int (length content)"
  define w1 where "w1 = print_if (self_v self) (program_warning D) (DOWNLOAD_INCOMPLETE_WRN dest)
                     (w\<lparr>events := events w @ [Request (HEAD url)]\<rparr>)"
  define w' where "w' = fst (downloader net self position (Some L) w1)"
  have L: "L \<noteq> 0"
    using assms(7) by (simp add: L_def)
  then have hdr: "resume_header (Some L) = Some [(''Range'', ''bytes='' @ str_int L @ ''-'')]"
    and tr: "truthy (Some L)"
    by (simp_all add: resume_header_def truthy_def)
  have eq: "download_file net D self position w = downloader net self position (Some L) w1"
    using download_file_probe [where net = net and w = w and D = D, OF assms(1-4)] assms(5,6)
    by (simp add: w1_def dest_def L_def)
  note fetch = fetch_after_report [where net = net and rb = "Some L", unfolded hdr,
      OF assms(1,2) w1_def w'_def]
  have trace: "\<exists>k. new_events w w'
      = Request (HEAD url) # (if program_warning D \<le> self_v self
                              then [Printed (DOWNLOAD_INCOMPLETE_WRN dest)] else [])
        @ take k [Request (HEAD url),
                  Request (GET url (Some [(''Range'', ''bytes='' @ str_int L @ ''-'')])),
                  Open dest Mode_ab]"
    using fetch(1) tr by (simp add: dest_def)
  have full: "new_events w w'
        = Request (HEAD url) # (if program_warning D \<le> self_v self
                                then [Printed (DOWNLOAD_INCOMPLETE_WRN dest)] else [])
          @ [Request (HEAD url),
             Request (GET url (Some [(''Range'', ''bytes='' @ str_int L @ ''-'')])),
             Open dest Mode_ab]
      \<and> files w' = (files w)(dest \<mapsto> content @ concat chunks)
      \<and> snd (downloader net self position (Some L) w1)
          = (case failure of None \<Rightarrow> Inr () | Some e \<Rightarrow> Inl e)"
    if "net (Suc (sent w)) (HEAD url) = Inr r1" "header_int (content_length r1) = Inr n"
       "net (Suc (Suc (sent w)))
          (GET url (Some [(''Range'', ''bytes='' @ str_int L @ ''-'')])) = Inr r2"
       "iter_content r2 (32 * block_size self) = (chunks, failure)"
    for r1 n r2 chunks failure
    using fetch(2) [OF that] tr assms(5) by (simp add: dest_def)
  show ?thesis
    unfolding Let_def eq dest_def [symmetric] L_def [symmetric] w1_def [symmetric]
      w'_def [symmetric]
    using trace full by blast
qed

theorem download_file_resumes_witness:
  "download_file sample_net sample_D sample_self 0
       \<lparr>files = [Path ''out'' ''x'' \<mapsto> [1, 2]], events = []\<rparr>
     = (\<lparr>files = [Path ''out'' ''x'' \<mapsto> [1, 2, 3, 4, 5]],
         events = [Request (HEAD ''http://a/x''),
                   Printed (DOWNLOAD_INCOMPLETE_WRN (Path ''out'' ''x'')),
                   Request (HEAD ''http://a/x''),
                   Request (GET ''http://a/x'' (Some [(''Range'', ''bytes=2-'')])),
                   Open (Path ''out'' ''x'') Mode_ab]\<rparr>, Inr ())"
proof -
  let ?w = "\<lparr>files = [Path ''out'' ''x'' \<mapsto> [1, 2 :: byte]], events = []\<rparr>"
  let ?res = "download_file sample_net sample_D sample_self 0 ?w"
  have str: "str_int 2 = ''2''"
    by (simp add: str_int_def str_nat.simps)
  have "new_events ?w (fst ?res)
          = [Request (HEAD ''http://a/x''),
             Printed (DOWNLOAD_INCOMPLETE_WRN (Path ''out'' ''x'')),
             Request (HEAD ''http://a/x''),
             Request (GET ''http://a/x'' (Some [(''Range'', ''bytes=2-'')])),
             Open (Path ''out'' ''x'') Mode_ab]
       \<and> files (fst ?res) = [Path ''out'' ''x'' \<mapsto> [1, 2, 3, 4, 5]]
       \<and> snd ?res = Inr ()"
    using download_file_resumes [where self = sample_self and position = 0
        and url = "''http://a/x''" and name = "''x''" and net = sample_net and D = sample_D
        and w = ?w and R = 5 and content = "[1, 2]"
        and r = "\<lparr>content_length = Value 5, iter_content = (\<lambda>size. ([], None))\<rparr>"]
    by (clarsimp simp: sample_self_def sample_D_def sample_net_def getitem_def sent_def
          Let_def str)
  then show ?thesis
    by (cases ?res) (simp add: new_events_def)
qed

text \<open>
  Claim C1 as stated fails for an existing empty file (\<open>L = 0\<close>, remote size \<open>5\<close>): the
  offset \<open>0\<close> is false in \<^verbatim>\<open>if resume_byte_pos\<close>, so no \<^verbatim>\<open>Range\<close> header is sent and the
  file is opened in mode \<^verbatim>\<open>'wb'\<close>.
\<close>

theorem download_file_resumes_counterexample:
  "download_file sample_net sample_D sample_self 0
       \<lparr>files = [Path ''out'' ''x'' \<mapsto> []], events = []\<rparr>
     = (\<lparr>files = [Path ''out'' ''x'' \<mapsto> [1, 2, 3, 4, 5]],
         events = [Request (HEAD ''http://a/x''),
                   Printed (DOWNLOAD_INCOMPLETE_WRN (Path ''out'' ''x'')),
                   Request (HEAD ''http://a/x''),
                   Request (GET ''http://a/x'' None),
                   Open (Path ''out'' ''x'') Mode_wb]\<rparr>, Inr ())
   \<and> Open (Path ''out'' ''x'') Mode_ab
       \<notin> set (events (fst (download_file sample_net sample_D sample_self 0
              \<lparr>files = [Path ''out'' ''x'' \<mapsto> []], events = []\<rparr>)))
   \<and> Request (GET ''http://a/x'' (Some [(''Range'', ''bytes=0-'')]))
       \<notin> set (events (fst (download_file sample_net sample_D sample_self 0
              \<lparr>files = [Path ''out'' ''x'' \<mapsto> []], events = []\<rparr>)))"
  by (simp add: download_file_def downloader_def sample_net_def sample_D_def sample_self_def
        getitem_def sent_def print_if_def resume_header_def truthy_def open_write_def
        file_write_def Let_def)

text \<open>
  Claim C3. For an item whose destination file does not exist, \<^verbatim>\<open>download_file\<close> reports
  \<^verbatim>\<open>DOWNLOAD_START_MSG\<close> (through \<^verbatim>\<open>print_if\<close> at the level \<^verbatim>\<open>program_progress\<close>) and calls
  \<^verbatim>\<open>downloader\<close> with \<^verbatim>\<open>resume_byte_pos = None\<close>. Whatever the network answers, every
  content request it sends has no headers and every file it opens is the destination in
  mode \<^verbatim>\<open>'wb'\<close>; when \<^verbatim>\<open>downloader\<close>'s probe and its content request are answered, the
  request is sent, the file is created, and it holds exactly the chunks received.
\<close>

theorem download_file_starts:
  assumes "getitem (urls self) position = Inr url"
    and "getitem (file_names self) position = Inr name"
    and "net (sent w) (HEAD url) = Inr r"
    and "header_int (content_length r) = Inr R"
    and "files w (Path (outfile self) name) = None"
  shows "let file = Path (outfile self) name;
             report = (if program_progress D \<le> self_v self
                       then [Printed (DOWNLOAD_START_MSG file)] else []);
             w' = fst (download_file net D self position w)
         in download_file net D self position w
              = downloader net self position None
                  (print_if (self_v self) (program_progress D) (DOWNLOAD_START_MSG file)
                     (w\<lparr>events := events w @ [Request (HEAD url)]\<rparr>))
          \<and> (\<exists>k. new_events w w'
                 = Request (HEAD url) # report
                   @ take k [Request (HEAD url), Request (GET url None), Open file Mode_wb])
          \<and> (\<forall>r1 n r2 chunks failure.
                net (Suc (sent w)) (HEAD url) = Inr r1 \<and> header_int (content_length r1) = Inr n
                \<and> net (Suc (Suc (sent w))) (GET url None) = Inr r2
                \<and> iter_content r2 (32 * block_size self) = (chunks, failure) \<longrightarrow>
                new_events w w'
                  = Request (HEAD url) # report
                    @ [Request (HEAD url), Request (GET url None), Open file Mode_wb]
                \<and> files w' = (files w)(file \<mapsto> concat chunks)
                \<and> snd (download_file net D self position w)
                    = (case failure of None \<Rightarrow> Inr () | Some e \<Rightarrow> Inl e))"
proof -
  define dest where "dest = Path (outfile self) name"
  define w1 where "w1 = print_if (self_v self) (program_progress D) (DOWNLOAD_START_MSG dest)
                     (w\<lparr>events := events w @ [Request (HEAD url)]\<rparr>)"
  define w' where "w' = fst (downloader net self position None w1)"
  have hdr: "resume_header None = None" and tr: "\<not> truthy None"
    by (simp_all add: resume_header_def truthy_def)
  have eq: "download_file net D self position w = downloader net self position None w1"
    using download_file_probe [where net = net and w = w and D = D, OF assms(1-4)] assms(5)
    by (simp add: w1_def dest_def)
  note fetch = fetch_after_report [where net = net and rb = None, unfolded hdr,
      OF assms(1,2) w1_def w'_def]
  have trace: "\<exists>k. new_events w w'
      = Request (HEAD url) # (if program_progress D \<le> self_v self
                              then [Printed (DOWNLOAD_START_MSG dest)] else [])
        @ take k [Request (HEAD url), Request (GET url None), Open dest Mode_wb]"
    using fetch(1) tr by (simp add: dest_def)
  have full: "new_events w w'
        = Request (HEAD url) # (if program_progress D \<le> self_v self
                                then [Printed (DOWNLOAD_START_MSG dest)] else [])
          @ [Request (HEAD url), Request (GET url None), Open dest Mode_wb]
      \<and> files w' = (files w)(dest \<mapsto> concat chunks)
      \<and> snd (downloader net self position None w1)
          = (case failure of None \<Rightarrow> Inr () | Some e \<Rightarrow> Inl e)"
    if "net (Suc (sent w)) (HEAD url) = Inr r1" "header_int (content_length r1) = Inr n"
       "net (Suc (Suc (sent w))) (GET url None) = Inr r2"
       "iter_content r2 (32 * block_size self) = (chunks, failure)"
    for r1 n r2 chunks failure
    using fetch(2) [OF that] tr by (simp add: dest_def)
  show ?thesis
    unfolding Let_def eq dest_def [symmetric] w1_def [symmetric] w'_def [symmetric]
    using trace full by blast
qed

theorem download_file_starts_witness:
  "download_file sample_net sample_D sample_self 0 \<lparr>files = Map.empty, events = []\<rparr>
     = (\<lparr>files = [Path ''out'' ''x'' \<mapsto> [1, 2, 3, 4, 5]],
         events = [Request (HEAD ''http://a/x''),
                   Printed (DOWNLOAD_START_MSG (Path ''out'' ''x'')),
                   Request (HEAD ''http://a/x''),
                   Request (GET ''http://a/x'' None),
                   Open (Path ''out'' ''x'') Mode_wb]\<rparr>, Inr ())"
proof -
  let ?w = "\<lparr>files = Map.empty, events = []\<rparr>"
  let ?res = "download_file sample_net sample_D sample_self 0 ?w"
  have "new_events ?w (fst ?res)
          = [Request (HEAD ''http://a/x''),
             Printed (DOWNLOAD_START_MSG (Path ''out'' ''x'')),
             Request (HEAD ''http://a/x''),
             Request (GET ''http://a/x'' None),
             Open (Path ''out'' ''x'') Mode_wb]
       \<and> files (fst ?res) = [Path ''out'' ''x'' \<mapsto> [1, 2, 3, 4, 5]]
       \<and> snd ?res = Inr ()"
    using download_file_starts [where self = sample_self and position = 0
        and url = "''http://a/x''" and name = "''x''" and net = sample_net and D = sample_D
        and w = ?w and R = 5
        and r = "\<lparr>content_length = Value 5, iter_content = (\<lambda>size. ([], None))\<rparr>"]
    by (clarsimp simp: sample_self_def sample_D_def sample_net_def getitem_def sent_def
          Let_def)
  then show ?thesis
    by (cases ?res) (simp add: new_events_def)
qed

lemma download_file_complete:
  assumes "getitem (urls self) position = Inr url"
    and "getitem (file_names self) position = Inr name"
    and "net (sent w) (HEAD url) = Inr r"
    and "header_int (content_length r) = Inr R"
    and "files w (Path (outfile self) name) = Some content"
    and "R = int (length content)"
  shows "download_file net D self position w
      = (print_if (self_v self) (program_progress D)
           (DOWNLOAD_COMPLETE_MSG (Path (outfile self) name))
           (w\<lparr>events := events w @ [Request (HEAD url)]\<rparr>), Inr ())"
  using download_file_probe [where net = net and w = w and D = D, OF assms(1-4)] assms(5,6)
  by simp

lemma getitem_nat: "i < length xs \<Longrightarrow> getitem xs (int i) = Inr (xs ! i)"
  by (simp add: getitem_def)

lemma download_loop_complete:
  assumes "all_complete net self w0"
  shows "files w = files w0 \<Longrightarrow> \<forall>i \<in> set is. i < length (urls self) \<Longrightarrow>
     \<exists>w'. download_loop net D self (map int is) w = (w', Inr ())
        \<and> files w' = files w0
        \<and> filter is_request (new_events w w') = map (\<lambda>i. Request (HEAD (urls self ! i))) is
        \<and> (\<exists>es. events w' = events w @ es)"
proof (induction "is" arbitrary: w)
  case Nil
  then show ?case by (simp add: new_events_def)
next
  case (Cons i rest)
  from Cons.prems have i: "i < length (urls self)" by simp
  with assms obtain content r where
    name: "i < length (file_names self)"
    and content: "files w0 (Path (outfile self) (file_names self ! i)) = Some content"
    and r: "net (sent w) (HEAD (urls self ! i)) = Inr r"
    and size: "header_int (content_length r) = Inr (int (length content))"
    unfolding all_complete_def by metis
  define w1 where "w1 = print_if (self_v self) (program_progress D)
           (DOWNLOAD_COMPLETE_MSG (Path (outfile self) (file_names self ! i)))
           (w\<lparr>events := events w @ [Request (HEAD (urls self ! i))]\<rparr>)"
  have step: "download_file net D self (int i) w = (w1, Inr ())"
    unfolding w1_def
    using content Cons.prems(1)
    by (intro download_file_complete [where net = net and w = w,
          OF getitem_nat [OF i] getitem_nat [OF name] r size]) simp_all
  have f1: "files w1 = files w0"
    using Cons.prems(1) by (simp add: w1_def)
  have ev1: "events w1 = events w @ (Request (HEAD (urls self ! i))
      # (if program_progress D \<le> self_v self
         then [Printed (DOWNLOAD_COMPLETE_MSG (Path (outfile self) (file_names self ! i)))]
         else []))"
    by (simp add: w1_def events_print_if)
  from Cons.IH [OF f1] Cons.prems(2) obtain w' es where
    loop: "download_loop net D self (map int rest) w1 = (w', Inr ())"
    and f': "files w' = files w0"
    and req: "filter is_request (new_events w1 w')
                = map (\<lambda>i. Request (HEAD (urls self ! i))) rest"
    and es: "events w' = events w1 @ es"
    by auto
  have "new_events w w' = (Request (HEAD (urls self ! i))
      # (if program_progress D \<le> self_v self
         then [Printed (DOWNLOAD_COMPLETE_MSG (Path (outfile self) (file_names self ! i)))]
         else [])) @ new_events w1 w'"
    by (rule new_events_trans [OF ev1 es])
  then have "filter is_request (new_events w w')
      = map (\<lambda>i. Request (HEAD (urls self ! i))) (i # rest)"
    using req by simp
  moreover have "\<exists>es. events w' = events w @ es"
    using ev1 es by simp
  ultimately show ?case
    using step loop f' by simp
qed

lemma all_complete_files:
  "files w' = files w \<Longrightarrow> all_complete net self w' = all_complete net self w"
  by (simp add: all_complete_def)

lemma download_complete:
  assumes "all_complete net self w"
  shows "\<exists>w'. download net D self w = (w', Inr ())
           \<and> files w' = files w
           \<and> filter is_request (new_events w w') = map (\<lambda>u. Request (HEAD u)) (urls self)"
proof -
  have "map (\<lambda>i. Request (HEAD (urls self ! i))) [0..<length (urls self)]
      = map (\<lambda>u. Request (HEAD u)) (map (\<lambda>i. urls self ! i) [0..<length (urls self)])"
    by simp
  also have "\<dots> = map (\<lambda>u. Request (HEAD u)) (urls self)"
    by (simp only: map_nth)
  finally have req: "map (\<lambda>i. Request (HEAD (urls self ! i))) [0..<length (urls self)]
      = map (\<lambda>u. Request (HEAD u)) (urls self)" .
  have range: "\<forall>i \<in> set [0..<length (urls self)]. i < length (urls self)"
    by simp
  from download_loop_complete [OF assms refl range, of D] obtain w' where
    "download_loop net D self (map int [0..<length (urls self)]) w = (w', Inr ())"
    "files w' = files w"
    "filter is_request (new_events w w')
       = map (\<lambda>i. Request (HEAD (urls self ! i))) [0..<length (urls self)]"
    by blast
  then have "download net D self w = (w', Inr ()) \<and> files w' = files w
      \<and> filter is_request (new_events w w') = map (\<lambda>u. Request (HEAD u)) (urls self)"
    by (simp only: download_def positions_def req simp_thms)
  then show ?thesis ..
qed

text \<open>
  Claim C2. For an item whose destination file exists with the probed size,
  \<^verbatim>\<open>download_file\<close> sends the \<^verbatim>\<open>HEAD\<close> probe and nothing else, reports
  \<^verbatim>\<open>DOWNLOAD_COMPLETE_MSG\<close> (through \<^verbatim>\<open>print_if\<close> at the level \<^verbatim>\<open>program_progress\<close>) and
  leaves every file as it was. When this holds of every item, \<^verbatim>\<open>download()\<close> returns
  having sent one \<^verbatim>\<open>HEAD\<close> per item, in order, and no other request, with the files
  unchanged; and so does \<^verbatim>\<open>download()\<close> called again.
\<close>

theorem download_file_skips:
  "(getitem (urls self) position = Inr url \<and> getitem (file_names self) position = Inr name
    \<and> net (sent w) (HEAD url) = Inr r
    \<and> header_int (content_length r) = Inr (int (length content))
    \<and> files w (Path (outfile self) name) = Some content \<longrightarrow>
      download_file net D self position w
        = (print_if (self_v self) (program_progress D)
             (DOWNLOAD_COMPLETE_MSG (Path (outfile self) name))
             (w\<lparr>events := events w @ [Request (HEAD url)]\<rparr>), Inr ())
      \<and> files (fst (download_file net D self position w)) = files w
      \<and> new_events w (fst (download_file net D self position w))
          = Request (HEAD url)
            # (if program_progress D \<le> self_v self
               then [Printed (DOWNLOAD_COMPLETE_MSG (Path (outfile self) name))] else []))
   \<and> (all_complete net self w \<longrightarrow>
      (\<exists>w'. download net D self w = (w', Inr ())
          \<and> files w' = files w
          \<and> filter is_request (new_events w w') = map (\<lambda>u. Request (HEAD u)) (urls self)
          \<and> (\<exists>w''. download net D self w' = (w'', Inr ())
                \<and> files w'' = files w'
                \<and> filter is_request (new_events w' w'')
                    = map (\<lambda>u. Request (HEAD u)) (urls self))))"
proof (intro conjI impI)
  assume a: "getitem (urls self) position = Inr url \<and> getitem (file_names self) position = Inr name
    \<and> net (sent w) (HEAD url) = Inr r
    \<and> header_int (content_length r) = Inr (int (length content))
    \<and> files w (Path (outfile self) name) = Some content"
  from a have 1: "getitem (urls self) position = Inr url" by (rule conjunct1)
  from a have 2: "getitem (file_names self) position = Inr name" by blast
  from a have 3: "net (sent w) (HEAD url) = Inr r" by blast
  from a have 4: "header_int (content_length r) = Inr (int (length content))" by blast
  from a have 5: "files w (Path (outfile self) name) = Some content" by blast
  show eq: "download_file net D self position w
        = (print_if (self_v self) (program_progress D)
             (DOWNLOAD_COMPLETE_MSG (Path (outfile self) name))
             (w\<lparr>events := events w @ [Request (HEAD url)]\<rparr>), Inr ())"
    by (rule download_file_complete [where net = net and w = w, OF 1 2 3 4 5 refl])
  show "files (fst (download_file net D self position w)) = files w"
    by (simp add: eq)
  show "new_events w (fst (download_file net D self position w))
          = Request (HEAD url)
            # (if program_progress D \<le> self_v self
               then [Printed (DOWNLOAD_COMPLETE_MSG (Path (outfile self) name))] else [])"
    by (simp add: eq new_events_def events_print_if)
next
  assume c: "all_complete net self w"
  from download_complete [OF c, of D] obtain w' where
    w': "download net D self w = (w', Inr ())" "files w' = files w"
      "filter is_request (new_events w w') = map (\<lambda>u. Request (HEAD u)) (urls self)"
    by blast
  have "all_complete net self w'"
    using c all_complete_files [OF w'(2), of net self] by (rule iffD2 [rotated])
  from download_complete [OF this, of D] obtain w'' where
    w'': "download net D self w' = (w'', Inr ())" "files w'' = files w'"
      "filter is_request (new_events w' w'') = map (\<lambda>u. Request (HEAD u)) (urls self)"
    by blast
  have again: "\<exists>w''. download net D self w' = (w'', Inr ())
                \<and> files w'' = files w'
                \<and> filter is_request (new_events w' w'')
                    = map (\<lambda>u. Request (HEAD u)) (urls self)"
    by (rule exI [of _ w'']) (simp only: w'' simp_thms)
  show "\<exists>w'. download net D self w = (w', Inr ())
          \<and> files w' = files w
          \<and> filter is_request (new_events w w') = map (\<lambda>u. Request (HEAD u)) (urls self)
          \<and> (\<exists>w''. download net D self w' = (w'', Inr ())
                \<and> files w'' = files w'
                \<and> filter is_request (new_events w' w'')
                    = map (\<lambda>u. Request (HEAD u)) (urls self))"
    by (rule exI [of _ w']) (intro conjI w' again)
qed

theorem download_file_skips_witness:
  "download_file sample_net sample_D sample_self 0
       \<lparr>files = [Path ''out'' ''x'' \<mapsto> [1, 2, 3, 4, 5], Path ''out'' ''y'' \<mapsto> [6, 7, 8, 9, 10]],
        events = []\<rparr>
     = (\<lparr>files = [Path ''out'' ''x'' \<mapsto> [1, 2, 3, 4, 5], Path ''out'' ''y'' \<mapsto> [6, 7, 8, 9, 10]],
         events = [Request (HEAD ''http://a/x''),
                   Printed (DOWNLOAD_COMPLETE_MSG (Path ''out'' ''x''))]\<rparr>, Inr ())
   \<and> (\<exists>w'. download sample_net sample_D sample_self
              \<lparr>files = [Path ''out'' ''x'' \<mapsto> [1, 2, 3, 4, 5],
                        Path ''out'' ''y'' \<mapsto> [6, 7, 8, 9, 10]],
               events = []\<rparr> = (w', Inr ())
          \<and> files w' = [Path ''out'' ''x'' \<mapsto> [1, 2, 3, 4, 5],
                         Path ''out'' ''y'' \<mapsto> [6, 7, 8, 9, 10]]
          \<and> filter is_request (events w')
              = [Request (HEAD ''http://a/x''), Request (HEAD ''http://a/y'')])"
proof -
  let ?w = "\<lparr>files = [Path ''out'' ''x'' \<mapsto> [1, 2, 3, 4, 5 :: byte],
                      Path ''out'' ''y'' \<mapsto> [6, 7, 8, 9, 10]], events = []\<rparr>"
  have complete: "all_complete sample_net sample_self ?w"
    by (simp add: all_complete_def sample_self_def sample_net_def All_less_Suc)
  show ?thesis
    using
      download_file_skips [where self = sample_self and position = 0
        and url = "''http://a/x''" and name = "''x''" and net = sample_net and D = sample_D
        and w = ?w and content = "[1, 2, 3, 4, 5]"
        and r = "\<lparr>content_length = Value 5, iter_content = (\<lambda>size. ([], None))\<rparr>"]
      complete
    by (clarsimp simp: sample_self_def sample_D_def sample_net_def getitem_def sent_def
          print_if_def new_events_def)
qed

section \<open>download\<close>

lemma download_loop_append:
  "download_loop net D self (ps @ qs) w
     = (case download_loop net D self ps w of
          (w', Inl e) \<Rightarrow> (w', Inl e)
        | (w', Inr u) \<Rightarrow> download_loop net D self qs w')"
  by (induction ps arbitrary: w) (simp_all split: prod.splits sum.splits)

lemma downloader_adds:
  "\<exists>es. events (fst (downloader net self position resume_byte_pos w)) = events w @ es
        \<and> Warned t \<notin> set es"
  by (simp add: downloader_def Let_def split: sum.splits prod.splits)

lemma download_file_adds:
  "\<exists>es. events (fst (download_file net D self position w)) = events w @ es \<and> Warned t \<notin> set es"
proof -
  have fetch: "\<exists>es. events (fst (downloader net self position rb (print_if v thr msg
                  (w\<lparr>events := events w @ [Request rq]\<rparr>)))) = events w @ es
                \<and> Warned t \<notin> set es" for rb v thr msg rq
  proof -
    obtain es where "events (fst (downloader net self position rb (print_if v thr msg
                  (w\<lparr>events := events w @ [Request rq]\<rparr>))))
        = events (print_if v thr msg (w\<lparr>events := events w @ [Request rq]\<rparr>)) @ es"
      and "Warned t \<notin> set es"
      using downloader_adds by blast
    then have "events (fst (downloader net self position rb (print_if v thr msg
                  (w\<lparr>events := events w @ [Request rq]\<rparr>))))
        = events w @ (Request rq # (if thr \<le> v then [Printed msg] else []) @ es)
        \<and> Warned t \<notin> set (Request rq # (if thr \<le> v then [Printed msg] else []) @ es)"
      by (simp add: events_print_if)
    then show ?thesis by blast
  qed
  show ?thesis
    unfolding download_file_def Let_def
    by (simp add: fetch events_print_if split: sum.splits option.splits)
qed

lemma download_loop_adds:
  "\<exists>es. events (fst (download_loop net D self ps w)) = events w @ es \<and> Warned t \<notin> set es"
proof (induction ps arbitrary: w)
  case Nil
  then show ?case by simp
next
  case (Cons p ps)
  obtain w1 r where step: "download_file net D self p w = (w1, r)"
    by (cases "download_file net D self p w")
  obtain es where es: "events w1 = events w @ es" "Warned t \<notin> set es"
    using download_file_adds [of net D self p w t] step by auto
  show ?case
  proof (cases r)
    case (Inl e)
    with step es show ?thesis by simp
  next
    case (Inr u)
    obtain fs where "events (fst (download_loop net D self ps w1)) = events w1 @ fs"
      and "Warned t \<notin> set fs"
      using Cons.IH by blast
    with es have "events (fst (download_loop net D self ps w1)) = events w @ (es @ fs)
        \<and> Warned t \<notin> set (es @ fs)"
      by simp
    with step Inr show ?thesis by auto
  qed
qed

text \<open>
  Claim C7 as stated fails: nothing in \<^verbatim>\<open>download\<close>, \<^verbatim>\<open>download_file\<close> or \<^verbatim>\<open>downloader\<close>
  catches an exception. When the server refuses the connection for the first URL,
  \<^verbatim>\<open>download()\<close> raises the \<^verbatim>\<open>ConnectionError\<close> and the second item is never probed.
\<close>

theorem download_failure_counterexample:
  "download failing_net sample_D sample_self \<lparr>files = Map.empty, events = []\<rparr>
     = (\<lparr>files = Map.empty, events = [Request (HEAD ''http://a/x'')]\<rparr>,
        Inl (ConnectionError ''refused''))
   \<and> Request (HEAD ''http://a/y'')
       \<notin> set (events (fst (download failing_net sample_D sample_self
                \<lparr>files = Map.empty, events = []\<rparr>)))"
  by (simp add: download_def positions_def download_file_def failing_net_def sample_self_def
        getitem_def sent_def upt_conv_Cons)

text \<open>
  Claim C7, amended. \<^verbatim>\<open>download()\<close> runs \<^verbatim>\<open>download_file\<close> on the positions
  \<open>0, 1, \<dots>\<close> in increasing order, each in the world the one before left. When the call
  for a position returns, the loop goes on to the next one; when it raises, \<^verbatim>\<open>download()\<close>
  raises the same exception in the world that call left, so no later position is
  visited. \<^verbatim>\<open>download()\<close> never emits a warning.
\<close>

theorem download_in_order:
  "download net D self w = download_loop net D self (map int [0..<length (urls self)]) w
   \<and> (i < length (urls self)
        \<and> download_loop net D self (map int [0..<i]) w = (w1, Inr ()) \<longrightarrow>
      (\<forall>w2 e. download_file net D self (int i) w1 = (w2, Inl e) \<longrightarrow>
          download net D self w = (w2, Inl e))
      \<and> (\<forall>w2. download_file net D self (int i) w1 = (w2, Inr ()) \<longrightarrow>
          download_loop net D self (map int [0..<Suc i]) w = (w2, Inr ())))
   \<and> (\<forall>t. Warned t \<notin> set (new_events w (fst (download net D self w))))"
proof (intro conjI impI allI)
  show "download net D self w = download_loop net D self (map int [0..<length (urls self)]) w"
    by (simp add: download_def positions_def)
next
  fix w2 e
  assume prefix: "i < length (urls self)
        \<and> download_loop net D self (map int [0..<i]) w = (w1, Inr ())"
    and fails: "download_file net D self (int i) w1 = (w2, Inl e)"
  from prefix have "[0..<i + (length (urls self) - i)]
      = [0..<i] @ [i..<i + (length (urls self) - i)]"
    by (intro upt_add_eq_append) simp
  with prefix have "[0..<length (urls self)] = [0..<i] @ i # [Suc i..<length (urls self)]"
    by (simp add: upt_conv_Cons)
  then have "positions self
      = map int [0..<i] @ int i # map int [Suc i..<length (urls self)]"
    by (simp add: positions_def)
  then show "download net D self w = (w2, Inl e)"
    using prefix fails by (simp add: download_def download_loop_append)
next
  fix w2
  assume prefix: "i < length (urls self)
        \<and> download_loop net D self (map int [0..<i]) w = (w1, Inr ())"
    and works: "download_file net D self (int i) w1 = (w2, Inr ())"
  have "map int [0..<Suc i] = map int [0..<i] @ [int i]"
    by simp
  then show "download_loop net D self (map int [0..<Suc i]) w = (w2, Inr ())"
    using prefix works by (simp only: download_loop_append) simp
next
  fix t
  obtain es where "events (fst (download net D self w)) = events w @ es" "Warned t \<notin> set es"
    using download_loop_adds [of net D self "positions self" w t]
    by (auto simp: download_def)
  then show "Warned t \<notin> set (new_events w (fst (download net D self w)))"
    by (simp add: new_events_def)
qed

theorem download_in_order_witness:
  "download failing_net sample_D sample_self
       \<lparr>files = [Path ''out'' ''y'' \<mapsto> [6, 7, 8, 9, 10]], events = []\<rparr>
     = (\<lparr>files = [Path ''out'' ''y'' \<mapsto> [6, 7, 8, 9, 10]],
         events = [Request (HEAD ''http://a/x'')]\<rparr>, Inl (ConnectionError ''refused''))
   \<and> download_loop sample_net sample_D sample_self (map int [0..<Suc 0])
       \<lparr>files = [Path ''out'' ''x'' \<mapsto> [1, 2, 3, 4, 5]], events = []\<rparr>
     = (\<lparr>files = [Path ''out'' ''x'' \<mapsto> [1, 2, 3, 4, 5]],
         events = [Request (HEAD ''http://a/x''),
                   Printed (DOWNLOAD_COMPLETE_MSG (Path ''out'' ''x''))]\<rparr>, Inr ())"
proof -
  let ?a = "\<lparr>files = [Path ''out'' ''y'' \<mapsto> [6, 7, 8, 9, 10 :: byte]], events = []\<rparr>"
  let ?b = "\<lparr>files = [Path ''out'' ''x'' \<mapsto> [1, 2, 3, 4, 5 :: byte]], events = []\<rparr>"
  have first: "0 < length (urls sample_self)"
    by (simp add: sample_self_def)
  have none: "download_loop net sample_D sample_self (map int [0..<0]) w = (w, Inr ())" for net w
    by simp
  have fails: "download_file failing_net sample_D sample_self (int 0) ?a
      = (\<lparr>files = [Path ''out'' ''y'' \<mapsto> [6, 7, 8, 9, 10]],
          events = [Request (HEAD ''http://a/x'')]\<rparr>, Inl (ConnectionError ''refused''))"
    by (simp add: download_file_def failing_net_def sample_self_def getitem_def sent_def)
  have works: "download_file sample_net sample_D sample_self (int 0) ?b
      = (\<lparr>files = [Path ''out'' ''x'' \<mapsto> [1, 2, 3, 4, 5]],
          events = [Request (HEAD ''http://a/x''),
                    Printed (DOWNLOAD_COMPLETE_MSG (Path ''out'' ''x''))]\<rparr>, Inr ())"
    by (simp add: download_file_def sample_net_def sample_self_def sample_D_def getitem_def
          sent_def print_if_def Let_def)
  from download_in_order [where net = failing_net and D = sample_D and self = sample_self
      and i = 0 and w = ?a and ?w1.0 = ?a] first none fails
  have "download failing_net sample_D sample_self ?a
      = (\<lparr>files = [Path ''out'' ''y'' \<mapsto> [6, 7, 8, 9, 10]],
          events = [Request (HEAD ''http://a/x'')]\<rparr>, Inl (ConnectionError ''refused''))"
    by blast
  moreover
  from download_in_order [where net = sample_net and D = sample_D and self = sample_self
      and i = 0 and w = ?b and ?w1.0 = ?b] first none works
  have "download_loop sample_net sample_D sample_self (map int [0..<Suc 0]) ?b
      = (\<lparr>files = [Path ''out'' ''x'' \<mapsto> [1, 2, 3, 4, 5]],
          events = [Request (HEAD ''http://a/x''),
                    Printed (DOWNLOAD_COMPLETE_MSG (Path ''out'' ''x''))]\<rparr>, Inr ())"
    by blast
  ultimately show ?thesis by (rule conjI)
qed

section \<open>Files are never deleted\<close>

lemma downloader_files:
  "files (fst (downloader net self position rb w)) = files w
   \<or> (\<exists>name chunks. getitem (file_names self) position = Inr name
         \<and> files (fst (downloader net self position rb w))
             = (files w)(Path (outfile self) name \<mapsto>
                 (if truthy rb
                  then (case files w (Path (outfile self) name) of None \<Rightarrow> [] | Some old \<Rightarrow> old)
                  else []) @ concat chunks))"
proof (cases "getitem (urls self) position")
  case (Inl e)
  then show ?thesis by (simp add: downloader_def)
next
  case url: (Inr url)
  show ?thesis
  proof (cases "net (sent w) (HEAD url)")
    case (Inl e)
    with url show ?thesis by (simp add: downloader_def)
  next
    case r1: (Inr r1)
    show ?thesis
    proof (cases "header_int (content_length r1)")
      case (Inl e)
      with url r1 show ?thesis by (simp add: downloader_def)
    next
      case n: (Inr n)
      show ?thesis
      proof (cases "net (Suc (sent w)) (GET url (resume_header rb))")
        case (Inl e)
        with url r1 n show ?thesis by (simp add: downloader_def)
      next
        case r2: (Inr r2)
        show ?thesis
        proof (cases "getitem (file_names self) position")
          case (Inl e)
          with url r1 n r2 show ?thesis by (simp add: downloader_def)
        next
          case name: (Inr name)
          obtain chunks failure where
            body: "iter_content r2 (32 * block_size self) = (chunks, failure)"
            by (cases "iter_content r2 (32 * block_size self)")
          have "files (fst (downloader net self position rb w))
             = (files w)(Path (outfile self) name \<mapsto>
                 (if truthy rb
                  then (case files w (Path (outfile self) name) of None \<Rightarrow> [] | Some old \<Rightarrow> old)
                  else []) @ concat chunks)"
            by (simp add: downloader_run [where net = net and w = w, OF url name r1 n r2 body]
                  files_fetch)
          with name show ?thesis by blast
        qed
      qed
    qed
  qed
qed

lemma download_file_files:
  "files (fst (download_file net D self position w)) = files w
   \<or> (\<exists>name chunks. getitem (file_names self) position = Inr name
         \<and> files (fst (download_file net D self position w))
             = (files w)(Path (outfile self) name \<mapsto>
                 (case files w (Path (outfile self) name) of None \<Rightarrow> [] | Some old \<Rightarrow> old)
                   @ concat chunks))"
proof (cases "getitem (urls self) position")
  case (Inl e)
  then show ?thesis by (simp add: download_file_def)
next
  case url: (Inr url)
  show ?thesis
  proof (cases "net (sent w) (HEAD url)")
    case (Inl e)
    with url show ?thesis by (simp add: download_file_def)
  next
    case r: (Inr r)
    show ?thesis
    proof (cases "header_int (content_length r)")
      case (Inl e)
      with url r show ?thesis by (simp add: download_file_def)
    next
      case R: (Inr R)
      show ?thesis
      proof (cases "getitem (file_names self) position")
        case (Inl e)
        with url r R show ?thesis by (simp add: download_file_def)
      next
        case name: (Inr name)
        note probe = download_file_probe [where net = net and w = w and D = D, OF url name r R]
        show ?thesis
        proof (cases "files w (Path (outfile self) name)")
          case None
          define w1 where "w1 = print_if (self_v self) (program_progress D)
              (DOWNLOAD_START_MSG (Path (outfile self) name))
              (w\<lparr>events := events w @ [Request (HEAD url)]\<rparr>)"
          have eq: "download_file net D self position w = downloader net self position None w1"
            using probe None by (simp add: w1_def)
          have f1: "files w1 = files w"
            by (simp add: w1_def)
          from downloader_files [of net self position None w1] show ?thesis
            unfolding eq f1 using None name by (auto simp: truthy_def)
        next
          case (Some content)
          show ?thesis
          proof (cases "R = int (length content)")
            case True
            with probe Some show ?thesis by simp
          next
            case False
            define w1 where "w1 = print_if (self_v self) (program_warning D)
                (DOWNLOAD_INCOMPLETE_WRN (Path (outfile self) name))
                (w\<lparr>events := events w @ [Request (HEAD url)]\<rparr>)"
            have eq: "download_file net D self position w
                = downloader net self position (Some (int (length content))) w1"
              using probe Some False by (simp add: w1_def)
            have f1: "files w1 = files w"
              by (simp add: w1_def)
            from downloader_files [of net self position "Some (int (length content))" w1]
            show ?thesis
              unfolding eq f1 using Some name by (auto simp: truthy_def)
          qed
        qed
      qed
    qed
  qed
qed

lemma download_file_grows:
  assumes "files w f = Some old"
  shows "\<exists>more. files (fst (download_file net D self position w)) f = Some (old @ more)"
proof -
  from download_file_files [of net D self position w]
  consider "files (fst (download_file net D self position w)) = files w"
    | name chunks where "files (fst (download_file net D self position w))
             = (files w)(Path (outfile self) name \<mapsto>
                 (case files w (Path (outfile self) name) of None \<Rightarrow> [] | Some old \<Rightarrow> old)
                   @ concat chunks)"
    by blast
  then show ?thesis
  proof cases
    case 1
    with assms show ?thesis by simp
  next
    case 2
    with assms show ?thesis by (cases "f = Path (outfile self) name") simp_all
  qed
qed

lemma download_loop_grows:
  "files w f = Some old \<Longrightarrow>
     \<exists>more. files (fst (download_loop net D self ps w)) f = Some (old @ more)"
proof (induction ps arbitrary: w old)
  case Nil
  then show ?case by simp
next
  case (Cons p ps)
  obtain w1 r where step: "download_file net D self p w = (w1, r)"
    by (cases "download_file net D self p w")
  obtain more where more: "files w1 f = Some (old @ more)"
    using download_file_grows [OF Cons.prems, of net D self p] step by auto
  show ?case
  proof (cases r)
    case (Inl e)
    with step more show ?thesis by simp
  next
    case (Inr u)
    from Cons.IH [OF more] obtain rest where
      "files (fst (download_loop net D self ps w1)) f = Some ((old @ more) @ rest)"
      by blast
    with step Inr show ?thesis by simp
  qed
qed

lemma downloader_keeps:
  assumes "files w f = Some old"
  shows "\<exists>new. files (fst (downloader net self position rb w)) f = Some new"
  using downloader_files [of net self position rb w] assms
  by (cases "\<exists>name. f = Path (outfile self) name") auto

lemma validate_loop_files: "files (fst (validate_loop H D self ps w)) = files w"
proof (induction ps arbitrary: w)
  case Nil
  then show ?case by simp
next
  case (Cons p ps)
  obtain w1 r where step: "validate_file H D self p w = (w1, r)"
    by (cases "validate_file H D self p w")
  then have "files w1 = files w"
    using validate_file_files [of H D self p w] by simp
  with step Cons.IH [of w1] show ?case
    by (cases r) simp_all
qed

text \<open>
  Claim C8. No operation of the downloader deletes a file. A file that exists before
  \<^verbatim>\<open>downloader\<close> exists after it; after \<^verbatim>\<open>download_file\<close> and \<^verbatim>\<open>download\<close> it even starts
  with the content it had. \<^verbatim>\<open>validate_file\<close> and \<^verbatim>\<open>validate\<close> only read: they leave every
  file as it was. \<^verbatim>\<open>downloader\<close> changes at most the destination file, which afterwards
  holds the chunks received, after its old content when resuming (append) and alone
  otherwise (truncating write).
\<close>

theorem core_never_deletes:
  "(files w f = Some old \<longrightarrow>
      (\<exists>new. files (fst (downloader net self position rb w)) f = Some new)
      \<and> (\<exists>more. files (fst (download_file net D self position w)) f = Some (old @ more))
      \<and> (\<exists>more. files (fst (download net D self w)) f = Some (old @ more)))
   \<and> files (fst (validate_file H D self position w)) = files w
   \<and> files (fst (validate H D self w)) = files w
   \<and> (files (fst (downloader net self position rb w)) = files w
       \<or> (\<exists>name chunks. getitem (file_names self) position = Inr name
             \<and> files (fst (downloader net self position rb w))
                 = (files w)(Path (outfile self) name \<mapsto>
                     (if truthy rb
                      then (case files w (Path (outfile self) name) of
                              None \<Rightarrow> [] | Some old \<Rightarrow> old)
                      else []) @ concat chunks)))"
  using downloader_keeps [of w f old net self position rb]
    download_file_grows [of w f old net D self position]
    download_loop_grows [of w f old net D self "positions self"]
    validate_file_files [of H D self position w]
    validate_loop_files [of H D self "positions self" w]
    downloader_files [of net self position rb w]
  by (simp add: download_def validate_def)

theorem core_never_deletes_witness:
  "(\<exists>new. files (fst (downloader sample_net sample_self 0 None
              \<lparr>files = [Path ''out'' ''x'' \<mapsto> [1, 2]], events = []\<rparr>)) (Path ''out'' ''x'')
            = Some new)
   \<and> (\<exists>more. files (fst (download_file sample_net sample_D sample_self 0
              \<lparr>files = [Path ''out'' ''x'' \<mapsto> [1, 2]], events = []\<rparr>)) (Path ''out'' ''x'')
            = Some ([1, 2] @ more))
   \<and> (\<exists>more. files (fst (download sample_net sample_D sample_self
              \<lparr>files = [Path ''out'' ''x'' \<mapsto> [1, 2]], events = []\<rparr>)) (Path ''out'' ''x'')
            = Some ([1, 2] @ more))
   \<and> files (fst (validate sample_hash sample_D sample_self
              \<lparr>files = [Path ''out'' ''x'' \<mapsto> [1, 2]], events = []\<rparr>))
       = [Path ''out'' ''x'' \<mapsto> [1, 2]]"
  using core_never_deletes [where w = "\<lparr>files = [Path ''out'' ''x'' \<mapsto> [1, 2]], events = []\<rparr>"
      and f = "Path ''out'' ''x''" and old = "[1, 2]" and net = sample_net and self = sample_self
      and position = 0 and rb = None and D = sample_D and H = sample_hash]
  by simp

end
